theory Spec2Isabelle
  imports Main "HOL-Library.Sublist"
begin

section \<open>Strings, paths and JavaScript values\<close>

text \<open>
  Keys and file names are JavaScript strings, modelled as \<open>string\<close>. The program calls
  three library primitives on them: \<open>path.extname\<close>, \<open>path.basename\<close> (POSIX flavour)
  and \<open>String.prototype.toLowerCase\<close>. They are modelled by their behaviour: a path's last
  component is what remains after the trailing slashes are dropped, back to the previous
  slash.
\<close>

definition isSlash :: "char \<Rightarrow> bool" where
  "isSlash c = (c = CHR ''/'')"

definition trailingSlashes :: "string \<Rightarrow> string" where
  "trailingSlashes p = takeWhile isSlash (rev p)"

definition lastComponent :: "string \<Rightarrow> string" where
  "lastComponent p = rev (takeWhile (\<lambda>c. \<not> isSlash c) (dropWhile isSlash (rev p)))"

text \<open>
  \<open>path.extname\<close>: from the last dot of the last component to its end; empty when the
  component has no dot, when its only dot is its first character, and for \<open>..\<close>.
\<close>

definition extname :: "string \<Rightarrow> string" where
  "extname p =
     (let comp = lastComponent p;
          afterDot = rev (takeWhile (\<lambda>c. c \<noteq> CHR ''.'') (rev comp));
          startDot = length comp - length afterDot - 1
      in if CHR ''.'' \<notin> set comp then []
         else if startDot = 0 then []
         else if comp = ''..'' then []
         else drop startDot comp)"

text \<open>
  \<open>path.basename(p, ext)\<close>: the last component, with \<open>ext\<close> removed from its end when
  it ends with \<open>ext\<close> and is longer than it. \<open>path.basename(p)\<close> is \<open>basename p []\<close>.
  The library returns the empty string when \<open>ext\<close> is the whole path, and keeps the
  trailing slashes when the component is a proper ending of \<open>ext\<close>.
\<close>

definition basename :: "string \<Rightarrow> string \<Rightarrow> string" where
  "basename p ext =
     (let comp = lastComponent p in
      if ext \<noteq> [] \<and> length ext \<le> length p then
        if ext = p then []
        else if length ext < length comp \<and> drop (length comp - length ext) comp = ext
          then take (length comp - length ext) comp
        else if length comp < length ext \<and> drop (length ext - length comp) ext = comp
          then comp @ trailingSlashes p
        else comp
      else comp)"

text \<open>
  \<open>toLowerCase\<close> on the letters A to Z. Every extension the program compares with is made
  of the letters b, e, f, g, i, j, m, n, p, w and a dot, and no character outside ASCII
  lower-cases to one of these, so the comparison results are those of the full Unicode
  mapping.
\<close>

definition lowerChar :: "char \<Rightarrow> char" where
  "lowerChar c =
     (let n = (of_char c :: nat) in if 65 \<le> n \<and> n \<le> 90 then char_of (n + 32) else c)"

definition toLowerCase :: "string \<Rightarrow> string" where
  "toLowerCase s = map lowerChar s"

text \<open>
  The values a property read on an object literal can give: a string of the literal, a
  member inherited from \<open>Object.prototype\<close> (named by its property), or \<open>undefined\<close>.
\<close>

datatype jsval = JString string | JInherited string | JUndefined

definition objectPrototypeProps :: "string list" where
  "objectPrototypeProps =
     [''constructor'', ''__defineGetter__'', ''__defineSetter__'', ''hasOwnProperty'',
      ''__lookupGetter__'', ''__lookupSetter__'', ''isPrototypeOf'',
      ''propertyIsEnumerable'', ''toString'', ''valueOf'', ''__proto__'',
      ''toLocaleString'']"

definition objectGet :: "(string \<times> string) list \<Rightarrow> string \<Rightarrow> jsval" where
  "objectGet literal prop =
     (case map_of literal prop of
        Some v \<Rightarrow> JString v
      | None \<Rightarrow> if prop \<in> set objectPrototypeProps then JInherited prop else JUndefined)"

fun truthy :: "jsval \<Rightarrow> bool" where
  "truthy (JString s) = (s \<noteq> [])"
| "truthy (JInherited _) = True"
| "truthy JUndefined = False"

definition jsOr :: "jsval \<Rightarrow> jsval \<Rightarrow> jsval" where
  "jsOr a b = (if truthy a then a else b)"

datatype error = Error string

fun message :: "error \<Rightarrow> string" where
  "message (Error m) = m"

section \<open>The processor and its surroundings\<close>

type_synonym bytes = "nat list"

record size_spec =
  name :: string
  width :: "nat option"
  height :: "nat option"

text \<open>The fields the constructor sets once: the recognised extensions and the sizes.\<close>

definition imageExtensions :: "string list" where
  "imageExtensions = [''.jpg'', ''.jpeg'', ''.png'', ''.gif'', ''.bmp'', ''.webp'']"

definition sizes :: "size_spec list" where
  "sizes =
     [\<lparr>name = ''default'', width = None, height = None\<rparr>,
      \<lparr>name = ''sd_320x180'', width = Some 320, height = Some 180\<rparr>,
      \<lparr>name = ''hd_1280x720'', width = Some 1280, height = Some 720\<rparr>,
      \<lparr>name = ''fhd_1920x1080'', width = Some 1920, height = Some 1080\<rparr>]"

text \<open>
  The fields that \<open>initialize\<close> sets from the prompt; \<open>region\<close> is the text that the region
  of the client configuration gives inside the public URL.
\<close>

record processor =
  bucketName :: string
  folderPath :: string
  makePublic :: bool
  tempDir :: string
  region :: string

record s3entry =
  Key :: string
  Size :: nat

datatype fit_mode = Cover | Contain | Fill | Inside | Outside

record resize_opts =
  r_width :: nat
  r_height :: nat
  fit :: fit_mode
  withoutEnlargement :: bool

record put_params =
  p_Bucket :: string
  p_Key :: string
  p_Body :: bytes
  p_ContentType :: jsval
  p_ACL :: "string option"

record processed_image =
  key :: string
  buffer :: bytes
  size_name :: string

record upload_result =
  u_size :: string
  u_key :: string
  url :: string

record outcome =
  original :: string
  processed :: "upload_result list"

text \<open>
  What lies outside the program: the storage service and the image library. Every request
  sent to the storage client has a number, its position among the requests of the run, and
  the service decides by that number and the request whether it fails. \<open>sharp\<close> maps the
  bytes of the staged file and the resize options (\<open>None\<close> when \<open>resize\<close> is not
  called) to the encoded bytes, or fails.
\<close>

record env =
  s3_list :: "string option \<Rightarrow> error + s3entry list option"
  s3_get :: "nat \<Rightarrow> string \<Rightarrow> error + bytes"
  s3_put :: "nat \<Rightarrow> put_params \<Rightarrow> error option"
  sharp :: "bytes \<Rightarrow> resize_opts option \<Rightarrow> error + bytes"

datatype event =
    ListSucceeded nat
  | ListFailed
  | NoImagesFound
  | VariantFailed string string string
  | ObjectSucceeded string nat
  | ObjectFailed string string
  | Summary "outcome list" nat nat
  | FatalError string
  | CredentialsRequired

text \<open>
  The state the program changes: the number of requests sent so far, the objects it has
  put into the bucket, the files of the local file system, and the console. Writing and
  deleting local files is taken to succeed.
\<close>

record world =
  requests :: nat
  published :: "string \<rightharpoonup> put_params"
  tmpfiles :: "string \<rightharpoonup> bytes"
  console :: "event list"

definition say :: "event \<Rightarrow> world \<Rightarrow> world" where
  "say e w = w\<lparr>console := console w @ [e]\<rparr>"

section \<open>The operations\<close>

text \<open>
  \<open>listImages\<close>: one listing request under the folder (no prefix for the bucket root),
  then the filter on the extension of each key. A failed request is reported and thrown
  again.
\<close>

definition listPrefix :: "processor \<Rightarrow> string option" where
  "listPrefix cfg = (if folderPath cfg \<noteq> [] then Some (folderPath cfg @ ''/'') else None)"

definition isImage :: "s3entry \<Rightarrow> bool" where
  "isImage obj = (toLowerCase (extname (Key obj)) \<in> set imageExtensions)"

definition listImages :: "processor \<Rightarrow> env \<Rightarrow> world \<Rightarrow> world \<times> (error + s3entry list)" where
  "listImages cfg env w =
     (let w1 = w\<lparr>requests := Suc (requests w)\<rparr> in
      case s3_list env (listPrefix cfg) of
        Inl e \<Rightarrow> (say ListFailed w1, Inl e)
      | Inr contents \<Rightarrow>
          (let images = (case contents of None \<Rightarrow> [] | Some objs \<Rightarrow> filter isImage objs)
           in (say (ListSucceeded (length images)) w1, Inr images)))"

text \<open>
  \<open>downloadImage\<close>: one get request, whose body is written to the file named after the
  last component of the key in the temporary directory. \<open>path.join\<close> of the directory and
  that name is the two with a slash between, the name of an image key being neither empty
  nor a dot name.
\<close>

definition downloadImage :: "processor \<Rightarrow> env \<Rightarrow> string \<Rightarrow> world \<Rightarrow> world \<times> (error + string)" where
  "downloadImage cfg env k w =
     (let w1 = w\<lparr>requests := Suc (requests w)\<rparr> in
      case s3_get env (requests w) k of
        Inl e \<Rightarrow> (w1, Inl e)
      | Inr buf \<Rightarrow>
          (let localPath = tempDir cfg @ ''/'' @ basename k []
           in (w1\<lparr>tmpfiles := (tmpfiles w1)(localPath \<mapsto> buf)\<rparr>, Inr localPath)))"

text \<open>
  \<open>processImage\<close>: for each size in turn, \<open>sharp\<close> reads the staged file, resizes it
  when the size has a width and a height (\<open>present\<close> is the truth value of such a field),
  and the result is pushed with its new key; a failure is caught, logged, and the loop
  goes on with the next size.
\<close>

fun present :: "nat option \<Rightarrow> bool" where
  "present None = False"
| "present (Some n) = (n \<noteq> 0)"

definition resizeRequest :: "size_spec \<Rightarrow> resize_opts option" where
  "resizeRequest sz =
     (if present (width sz) \<and> present (height sz)
      then Some \<lparr>r_width = the (width sz), r_height = the (height sz),
                 fit = Inside, withoutEnlargement = True\<rparr>
      else None)"

definition transcode :: "env \<Rightarrow> world \<Rightarrow> string \<Rightarrow> size_spec \<Rightarrow> error + bytes" where
  "transcode env w imagePath sz =
     (case tmpfiles w imagePath of
        None \<Rightarrow> Inl (Error ''Input file is missing'')
      | Some content \<Rightarrow> sharp env content (resizeRequest sz))"

definition newKey :: "processor \<Rightarrow> string \<Rightarrow> size_spec \<Rightarrow> string" where
  "newKey cfg originalKey sz =
     (let baseName = basename originalKey (extname originalKey);
          extension = extname originalKey
      in if folderPath cfg \<noteq> []
         then folderPath cfg @ ''/'' @ baseName @ ''-'' @ name sz @ extension
         else baseName @ ''-'' @ name sz @ extension)"

fun processSizes ::
  "processor \<Rightarrow> env \<Rightarrow> string \<Rightarrow> string \<Rightarrow> size_spec list \<Rightarrow> processed_image list \<Rightarrow> world
     \<Rightarrow> processed_image list \<times> world" where
  "processSizes cfg env imagePath originalKey [] results w = (results, w)"
| "processSizes cfg env imagePath originalKey (sz # rest) results w =
     (case transcode env w imagePath sz of
        Inr processedBuffer \<Rightarrow>
          processSizes cfg env imagePath originalKey rest
            (results @ [\<lparr>key = newKey cfg originalKey sz, buffer = processedBuffer,
                          size_name = name sz\<rparr>]) w
      | Inl e \<Rightarrow>
          processSizes cfg env imagePath originalKey rest results
            (say (VariantFailed originalKey (name sz) (message e)) w))"

definition processImage ::
  "processor \<Rightarrow> env \<Rightarrow> string \<Rightarrow> string \<Rightarrow> world \<Rightarrow> processed_image list \<times> world" where
  "processImage cfg env imagePath originalKey w =
     processSizes cfg env imagePath originalKey sizes [] w"

text \<open>
  \<open>getContentType\<close> and \<open>uploadImage\<close>: one put request with the content type of the
  key and, for public uploads, the ACL; the URL is returned when the request succeeded.
\<close>

definition contentTypes :: "(string \<times> string) list" where
  "contentTypes =
     [(''.jpg'', ''image/jpeg''), (''.jpeg'', ''image/jpeg''), (''.png'', ''image/png''),
      (''.gif'', ''image/gif''), (''.bmp'', ''image/bmp''), (''.webp'', ''image/webp'')]"

definition getContentType :: "string \<Rightarrow> jsval" where
  "getContentType filename =
     (let ext = toLowerCase (extname filename)
      in jsOr (objectGet contentTypes ext) (JString ''application/octet-stream''))"

definition putParams :: "processor \<Rightarrow> string \<Rightarrow> bytes \<Rightarrow> put_params" where
  "putParams cfg k buf =
     \<lparr>p_Bucket = bucketName cfg, p_Key = k, p_Body = buf, p_ContentType = getContentType k,
      p_ACL = (if makePublic cfg then Some ''public-read'' else None)\<rparr>"

definition objectUrl :: "processor \<Rightarrow> string \<Rightarrow> string" where
  "objectUrl cfg k =
     (if makePublic cfg
      then ''https://'' @ bucketName cfg @ ''.s3.'' @ region cfg @ ''.amazonaws.com/'' @ k
      else ''s3://'' @ bucketName cfg @ ''/'' @ k)"

definition uploadImage ::
  "processor \<Rightarrow> env \<Rightarrow> string \<Rightarrow> bytes \<Rightarrow> world \<Rightarrow> world \<times> (error + string)" where
  "uploadImage cfg env k buf w =
     (let uploadParams = putParams cfg k buf;
          w1 = w\<lparr>requests := Suc (requests w)\<rparr>
      in case s3_put env (requests w) uploadParams of
           Some e \<Rightarrow> (w1, Inl e)
         | None \<Rightarrow>
             (w1\<lparr>published := (published w1)(k \<mapsto> uploadParams)\<rparr>, Inr (objectUrl cfg k)))"

text \<open>The loop over \<open>processedImages\<close>: the first upload that throws ends it.\<close>

fun uploadLoop ::
  "processor \<Rightarrow> env \<Rightarrow> processed_image list \<Rightarrow> upload_result list \<Rightarrow> world
     \<Rightarrow> world \<times> (error + upload_result list)" where
  "uploadLoop cfg env [] uploadResults w = (w, Inr uploadResults)"
| "uploadLoop cfg env (p # rest) uploadResults w =
     (case uploadImage cfg env (key p) (buffer p) w of
        (w1, Inl e) \<Rightarrow> (w1, Inl e)
      | (w1, Inr u) \<Rightarrow>
          uploadLoop cfg env rest
            (uploadResults @ [\<lparr>u_size = size_name p, u_key = key p, url = u\<rparr>]) w1)"

text \<open>The body of the \<open>try\<close> block for one image, then the block with its \<open>catch\<close>.\<close>

definition tryImage :: "processor \<Rightarrow> env \<Rightarrow> s3entry \<Rightarrow> world \<Rightarrow> world \<times> (error + outcome)" where
  "tryImage cfg env img w =
     (case downloadImage cfg env (Key img) w of
        (w1, Inl e) \<Rightarrow> (w1, Inl e)
      | (w1, Inr localPath) \<Rightarrow>
          (case processImage cfg env localPath (Key img) w1 of
             (processedImages, w2) \<Rightarrow>
               (case uploadLoop cfg env processedImages [] w2 of
                  (w3, Inl e) \<Rightarrow> (w3, Inl e)
                | (w3, Inr uploadResults) \<Rightarrow>
                    (let w4 = say (ObjectSucceeded (Key img) (length processedImages)) w3;
                         w5 = w4\<lparr>tmpfiles := (tmpfiles w4)(localPath := None)\<rparr>
                     in (w5, Inr \<lparr>original = Key img, processed = uploadResults\<rparr>)))))"

definition processOne :: "processor \<Rightarrow> env \<Rightarrow> s3entry \<Rightarrow> world \<Rightarrow> world \<times> outcome option" where
  "processOne cfg env img w =
     (case tryImage cfg env img w of
        (w1, Inr r) \<Rightarrow> (w1, Some r)
      | (w1, Inl e) \<Rightarrow> (say (ObjectFailed (Key img) (message e)) w1, None))"

fun processLoop ::
  "processor \<Rightarrow> env \<Rightarrow> s3entry list \<Rightarrow> outcome list \<Rightarrow> world \<Rightarrow> world \<times> outcome list" where
  "processLoop cfg env [] allResults w = (w, allResults)"
| "processLoop cfg env (img # rest) allResults w =
     (case processOne cfg env img w of
        (w1, Some r) \<Rightarrow> processLoop cfg env rest (allResults @ [r]) w1
      | (w1, None) \<Rightarrow> processLoop cfg env rest allResults w1)"

text \<open>\<open>processAllImages\<close> returns \<open>undefined\<close> (here \<open>None\<close>) when no image was listed.\<close>

definition processAllImages ::
  "processor \<Rightarrow> env \<Rightarrow> world \<Rightarrow> world \<times> (error + outcome list option)" where
  "processAllImages cfg env w =
     (case listImages cfg env w of
        (w1, Inl e) \<Rightarrow> (w1, Inl e)
      | (w1, Inr images) \<Rightarrow>
          if length images = 0 then (say NoImagesFound w1, Inr None)
          else (case processLoop cfg env images [] w1 of
                  (w2, allResults) \<Rightarrow> (w2, Inr (Some allResults))))"

text \<open>
  \<open>displayResults\<close> prints the outcomes and two totals; \<open>cleanup\<close> removes the temporary
  directory with all it holds.
\<close>

definition displayResults :: "outcome list \<Rightarrow> world \<Rightarrow> world" where
  "displayResults results w =
     say (Summary results (length results)
            (foldl (\<lambda>total r. total + length (processed r)) 0 results)) w"

fun isSummary :: "event \<Rightarrow> bool" where
  "isSummary (Summary rs n m) = True"
| "isSummary e = False"

definition cleanup :: "processor \<Rightarrow> world \<Rightarrow> world" where
  "cleanup cfg w =
     w\<lparr>tmpfiles := (\<lambda>p. if prefix (tempDir cfg @ ''/'') p then None else tmpfiles w p)\<rparr>"

text \<open>
  \<open>run\<close>, from the point where \<open>initialize\<close> has set the fields. The second component is
  the exit code when the program calls \<open>process.exit\<close>, which ends the process at once, so
  the \<open>finally\<close> block runs only on the other path.
\<close>

definition run :: "processor \<Rightarrow> env \<Rightarrow> world \<Rightarrow> world \<times> nat option" where
  "run cfg env w =
     (case processAllImages cfg env w of
        (w1, Inl e) \<Rightarrow> (say (FatalError (message e)) w1, Some 1)
      | (w1, Inr results) \<Rightarrow>
          (let w2 = (case results of
                       None \<Rightarrow> w1
                     | Some rs \<Rightarrow> if length rs > 0 then displayResults rs w1 else w1)
           in (cleanup cfg w2, None)))"

text \<open>
  The check at the top level of the module. The host gives the environment variables and
  whether another source of credentials (a CLI profile, an instance role) is there; the
  check reads the variables only.
\<close>

record host =
  environ :: "string \<rightharpoonup> string"
  ambientProvider :: bool

definition unset :: "string option \<Rightarrow> bool" where
  "unset v = (case v of None \<Rightarrow> True | Some s \<Rightarrow> s = [])"

definition credentialsMissing :: "host \<Rightarrow> bool" where
  "credentialsMissing h =
     (unset (environ h ''AWS_ACCESS_KEY_ID'') \<or> unset (environ h ''AWS_SECRET_ACCESS_KEY''))"

definition main :: "host \<Rightarrow> processor \<Rightarrow> env \<Rightarrow> world \<Rightarrow> world \<times> nat option" where
  "main h cfg env w =
     (if credentialsMissing h then (say CredentialsRequired w, Some 1)
      else run cfg env w)"

section \<open>Concrete configurations and surroundings\<close>

text \<open>Inputs on which the theorems below are evaluated.\<close>

definition cfgPics :: processor where
  "cfgPics = \<lparr>bucketName = ''media'', folderPath = ''pics'', makePublic = True,
              tempDir = ''/tmp/s3-processor-1'', region = ''us-east-1''\<rparr>"

definition cfgRoot :: processor where
  "cfgRoot = \<lparr>bucketName = ''media'', folderPath = [], makePublic = False,
              tempDir = ''/tmp/s3-processor-1'', region = ''us-east-1''\<rparr>"

definition world0 :: world where
  "world0 = \<lparr>requests = 0, published = Map.empty, tmpfiles = Map.empty, console = []\<rparr>"

definition noFault :: "nat \<Rightarrow> bool" where
  "noFault n = False"

definition allFault :: "nat \<Rightarrow> bool" where
  "allFault n = True"

definition faultAt :: "nat \<Rightarrow> nat \<Rightarrow> bool" where
  "faultAt k n = (n = k)"

text \<open>
  A storage service that lists \<open>objs\<close>, fails exactly the requests that \<open>failing\<close>
  selects, and serves three bytes for every key; an image library that fails exactly for
  the resize options in \<open>bad\<close> and otherwise hands the bytes back.
\<close>

definition testEnv :: "s3entry list \<Rightarrow> (nat \<Rightarrow> bool) \<Rightarrow> resize_opts option list \<Rightarrow> env" where
  "testEnv objs failing bad =
     \<lparr>s3_list = (\<lambda>pre. Inr (Some objs)),
      s3_get = (\<lambda>n k. if failing n then Inl (Error ''NetworkingError'') else Inr [255, 216, 255]),
      s3_put = (\<lambda>n p. if failing n then Some (Error ''AccessDenied'') else None),
      sharp = (\<lambda>content opts. if opts \<in> set bad
                 then Inl (Error ''Input buffer contains unsupported image format'')
                 else Inr content)\<rparr>"

definition mixedListing :: "s3entry list" where
  "mixedListing =
     [\<lparr>Key = ''pics/'', Size = 0\<rparr>, \<lparr>Key = ''pics/a.JPG'', Size = 10\<rparr>,
      \<lparr>Key = ''pics/notes.txt'', Size = 7\<rparr>, \<lparr>Key = ''pics/empty.png'', Size = 0\<rparr>,
      \<lparr>Key = ''pics/.jpg'', Size = 3\<rparr>]"

definition twoImages :: "s3entry list" where
  "twoImages = [\<lparr>Key = ''pics/a.jpg'', Size = 10\<rparr>, \<lparr>Key = ''pics/b.png'', Size = 20\<rparr>]"

definition oneImage :: "s3entry list" where
  "oneImage = [\<lparr>Key = ''pics/a.jpg'', Size = 10\<rparr>]"

definition listed :: world where
  "listed = world0\<lparr>requests := 1\<rparr>"

section \<open>The image library's resizing\<close>

text \<open>
  Modelled from the spec: the contract of the resize primitive of the image library
  \<open>sharp\<close>, which the program calls and whose code is not part of the repository. Images
  are seen through their dimensions \<open>(width, height)\<close>. With no resize options the
  dimensions are preserved. With a bounding box of positive sides, fit inside and without
  enlargement, an image that fits the box keeps its dimensions, and any other image comes
  out with positive dimensions inside the box, in no dimension larger than it was, with
  its aspect ratio preserved within rounding: the exact ratio is missed by less than one
  pixel of one dimension. For any other options the spec promises nothing.
\<close>

definition resizeContract :: "resize_opts option \<Rightarrow> nat \<times> nat \<Rightarrow> nat \<times> nat \<Rightarrow> bool" where
  "resizeContract opts inDims outDims =
     (case opts of
        None \<Rightarrow> outDims = inDims
      | Some r \<Rightarrow>
          if fit r = Inside \<and> withoutEnlargement r \<and> 0 < r_width r \<and> 0 < r_height r then
            (case inDims of (iw, ih) \<Rightarrow>
               case outDims of (ow, oh) \<Rightarrow>
                 if iw \<le> r_width r \<and> ih \<le> r_height r then ow = iw \<and> oh = ih
                 else 0 < ow \<and> 0 < oh \<and> ow \<le> r_width r \<and> oh \<le> r_height r
                      \<and> ow \<le> iw \<and> oh \<le> ih
                      \<and> ow * ih < oh * iw + max iw ih \<and> oh * iw < ow * ih + max iw ih)
          else True)"

text \<open>
  A stand-in for the image library on which the theorem about resizing is evaluated. Its
  images are two numbers, the width and the height; it scales by the smaller of the two
  ratios, rounds the other side to the nearest pixel and never below one, leaves an image
  that fits alone when enlargement is excluded, and knows no fit but \<open>Inside\<close>.
\<close>

definition toyDims :: "bytes \<Rightarrow> (nat \<times> nat) option" where
  "toyDims content = (case content of [w, h] \<Rightarrow> Some (w, h) | _ \<Rightarrow> None)"

definition roundDiv :: "nat \<Rightarrow> nat \<Rightarrow> nat" where
  "roundDiv a b = (2 * a + b) div (2 * b)"

definition fitInside :: "nat \<Rightarrow> nat \<Rightarrow> nat \<times> nat \<Rightarrow> nat \<times> nat" where
  "fitInside maxWidth maxHeight dims =
     (case dims of (w, h) \<Rightarrow>
        if w * maxHeight \<le> h * maxWidth
        then (max 1 (roundDiv (w * maxHeight) h), maxHeight)
        else (maxWidth, max 1 (roundDiv (h * maxWidth) w)))"

definition toySharp :: "bytes \<Rightarrow> resize_opts option \<Rightarrow> error + bytes" where
  "toySharp content opts =
     (case toyDims content of
        None \<Rightarrow> Inl (Error ''Input buffer contains unsupported image format'')
      | Some dims \<Rightarrow>
          (case opts of
             None \<Rightarrow> Inr content
           | Some r \<Rightarrow>
               if fit r = Inside then
                 if withoutEnlargement r \<and> fst dims \<le> r_width r \<and> snd dims \<le> r_height r
                 then Inr content
                 else (case fitInside (r_width r) (r_height r) dims of (ow, oh) \<Rightarrow> Inr [ow, oh])
               else Inl (Error ''fit not supported'')))"

definition toyEnv :: env where
  "toyEnv = (testEnv [] noFault [])\<lparr>sharp := toySharp\<rparr>"

definition staged :: "bytes \<Rightarrow> world" where
  "staged content = world0\<lparr>tmpfiles := [''/tmp/s3-processor-1/a.jpg'' \<mapsto> content]\<rparr>"

section \<open>Facts about paths\<close>

lemma lastComponent_length: "length (lastComponent p) \<le> length p"
proof -
  have "length (takeWhile (\<lambda>c. \<not> isSlash c) (dropWhile isSlash (rev p))) \<le> length (dropWhile isSlash (rev p))"
    by (rule length_takeWhile_le)
  also have "\<dots> \<le> length (rev p)" by (rule length_dropWhile_le)
  finally show ?thesis by (simp add: lastComponent_def)
qed

lemma split_at_last_dot:
  assumes "CHR ''.'' \<in> set xs"
  shows "\<exists>pre. xs = pre @ CHR ''.'' # rev (takeWhile (\<lambda>c. c \<noteq> CHR ''.'') (rev xs))"
proof -
  let ?P = "\<lambda>c. c \<noteq> CHR ''.''"
  have "dropWhile ?P (rev xs) \<noteq> []" using assms by (simp add: dropWhile_eq_Nil_conv)
  moreover have "\<not> ?P (hd (dropWhile ?P (rev xs)))"
    using calculation by (rule hd_dropWhile)
  ultimately obtain rest where d: "dropWhile ?P (rev xs) = CHR ''.'' # rest"
    by (cases "dropWhile ?P (rev xs)") auto
  have "rev xs = takeWhile ?P (rev xs) @ dropWhile ?P (rev xs)" by simp
  then have "rev (rev xs) = rev (takeWhile ?P (rev xs) @ CHR ''.'' # rest)"
    using d by simp
  then have "xs = rev rest @ CHR ''.'' # rev (takeWhile ?P (rev xs))" by simp
  then show ?thesis by blast
qed

lemma extname_shape: "extname p = [] \<or> (\<exists>e. extname p = CHR ''.'' # e)"
proof (cases "CHR ''.'' \<in> set (lastComponent p)")
  case False
  then show ?thesis by (simp add: extname_def Let_def)
next
  case True
  let ?c = "lastComponent p"
  let ?a = "rev (takeWhile (\<lambda>c. c \<noteq> CHR ''.'') (rev ?c))"
  from split_at_last_dot [OF True] obtain pre where c: "?c = pre @ CHR ''.'' # ?a" by blast
  have "length ?c = length pre + length ?a + 1" by (subst c) simp
  then have n: "length ?c - length ?a - 1 = length pre" by simp
  have "drop (length pre) ?c = CHR ''.'' # ?a" by (subst c) simp
  then show ?thesis using n by (simp add: extname_def Let_def)
qed

lemma basename_extname: "basename p (extname p) @ extname p = lastComponent p"
proof (cases "extname p = []")
  case True
  then show ?thesis by (simp add: basename_def)
next
  case False
  let ?c = "lastComponent p"
  let ?a = "rev (takeWhile (\<lambda>c. c \<noteq> CHR ''.'') (rev ?c))"
  let ?n = "length ?c - length ?a - 1"
  from False have dot: "CHR ''.'' \<in> set ?c" and n0: "?n \<noteq> 0" and e: "extname p = drop ?n ?c"
    by (auto simp: extname_def Let_def split: if_splits)
  from split_at_last_dot [OF dot] obtain pre where c: "?c = pre @ CHR ''.'' # ?a" by blast
  have "length ?c = length pre + length ?a + 1" by (subst c) simp
  then have n: "?n = length pre" by simp
  have len: "length (extname p) < length ?c" using e n0 n False by simp
  have le: "length ?c \<le> length p" by (rule lastComponent_length)
  have "length (extname p) = length ?a + 1" using e n by (subst (asm) (2) c) simp
  then have "length ?c - length (extname p) = ?n" using \<open>length ?c = length pre + length ?a + 1\<close> n by simp
  then have k: "length ?c - length (extname p) = ?n" .
  have ne: "extname p \<noteq> p" using len le by auto
  have "drop (length ?c - length (extname p)) ?c = extname p" using k e by simp
  then have "basename p (extname p) = take (length ?c - length (extname p)) ?c"
    using len le False ne by (simp add: basename_def Let_def)
  then have "basename p (extname p) = take ?n ?c" using k by simp
  then show ?thesis using e by simp
qed

lemma lowerChar_dot: "lowerChar c = CHR ''.'' \<longleftrightarrow> c = CHR ''.''"
proof (cases "65 \<le> (of_char c :: nat) \<and> (of_char c :: nat) \<le> 90")
  case False
  then show ?thesis by (auto simp: lowerChar_def Let_def)
next
  case True
  have "char_of (of_char c + 32 :: nat) \<noteq> CHR ''.''"
  proof
    assume "char_of (of_char c + 32 :: nat) = CHR ''.''"
    then have "(of_char (char_of (of_char c + 32 :: nat)) :: nat) = of_char CHR ''.''" by simp
    then have "(of_char c + 32 :: nat) mod 256 = 46" by (simp add: of_char_of)
    with True show False by simp
  qed
  moreover have "c \<noteq> CHR ''.''" using True by auto
  ultimately show ?thesis using True by (simp add: lowerChar_def Let_def)
qed

text \<open>The examples of the library's documentation.\<close>

lemma extname_examples:
  "extname ''index.html'' = ''.html''" "extname ''index.coffee.md'' = ''.md''"
  "extname ''index.'' = ''.''" "extname ''index'' = []" "extname ''.index'' = []"
  "extname ''.index.md'' = ''.md''"
  by code_simp+

lemma basename_examples:
  "basename ''/foo/bar/baz/asdf/quux.html'' [] = ''quux.html''"
  "basename ''/foo/bar/baz/asdf/quux.html'' ''.html'' = ''quux''"
  by code_simp+

section \<open>Content types, listing, credentials and derived keys\<close>

lemma toLowerCase_extname_shape:
  "toLowerCase (extname p) = [] \<or> (\<exists>e. toLowerCase (extname p) = CHR ''.'' # e)"
  using extname_shape [of p] by (auto simp: toLowerCase_def lowerChar_dot)

lemma extension_not_inherited: "toLowerCase (extname p) \<notin> set objectPrototypeProps"
  using toLowerCase_extname_shape [of p] by (auto simp: objectPrototypeProps_def)

lemma objectGet_contentTypes:
  "map_of contentTypes x = Some t \<Longrightarrow> t \<noteq> []"
  by (auto simp: contentTypes_def split: if_splits)

text \<open>
  Claim C6. \<open>getContentType\<close> returns a string for every key: the entry of the fixed
  table for the lower-cased extension, and \<open>application/octet-stream\<close> for every
  extension the table does not have. An extension is empty or starts with a dot, so the
  lookup never reaches a member inherited from \<open>Object.prototype\<close>.
\<close>

theorem getContentType_total:
  "getContentType filename =
     JString (case map_of contentTypes (toLowerCase (extname filename)) of
                Some t \<Rightarrow> t | None \<Rightarrow> ''application/octet-stream'')
   \<and> getContentType ''pics/logo.PNG'' = JString ''image/png''
   \<and> getContentType ''pics/notes.xyz'' = JString ''application/octet-stream''"
proof (intro conjI)
  show "getContentType filename =
     JString (case map_of contentTypes (toLowerCase (extname filename)) of
                Some t \<Rightarrow> t | None \<Rightarrow> ''application/octet-stream'')"
    using extension_not_inherited [of filename]
    by (auto simp: getContentType_def objectGet_def jsOr_def Let_def
             dest: objectGet_contentTypes split: option.splits)
  show "getContentType ''pics/logo.PNG'' = JString ''image/png''" by code_simp
  show "getContentType ''pics/notes.xyz'' = JString ''application/octet-stream''" by code_simp
qed

text \<open>
  Claim C7, as stated, fails: a listed object of zero length whose key ends in \<open>.jpg\<close>
  is kept.
\<close>

theorem listImages_keeps_empty_image_counterexample:
  "snd (listImages cfgPics (testEnv [\<lparr>Key = ''pics/empty.jpg'', Size = 0\<rparr>] noFault []) world0)
     = Inr [\<lparr>Key = ''pics/empty.jpg'', Size = 0\<rparr>]"
  by code_simp

text \<open>
  Claim C7, amended. When the listing request succeeds, \<open>listImages\<close> returns, in listing
  order, exactly the entries whose lower-cased \<open>path.extname\<close> is one of \<open>.jpg\<close>,
  \<open>.jpeg\<close>, \<open>.png\<close>, \<open>.gif\<close>, \<open>.bmp\<close>, \<open>.webp\<close>, whatever their size, and raises
  no error; a listing without contents gives the empty list.
\<close>

theorem listImages_by_extension:
  assumes "s3_list env (listPrefix cfg) = Inr contents"
  shows "snd (listImages cfg env w) =
           Inr (filter (\<lambda>obj. toLowerCase (extname (Key obj)) \<in>
                          {''.jpg'', ''.jpeg'', ''.png'', ''.gif'', ''.bmp'', ''.webp''})
                  (case contents of None \<Rightarrow> [] | Some objs \<Rightarrow> objs))"
proof -
  have "isImage = (\<lambda>obj. toLowerCase (extname (Key obj)) \<in>
                          {''.jpg'', ''.jpeg'', ''.png'', ''.gif'', ''.bmp'', ''.webp''})"
    by (simp add: fun_eq_iff isImage_def imageExtensions_def)
  then show ?thesis
    using assms by (simp add: listImages_def Let_def split: option.splits)
qed

lemma mixedListing_list: "s3_list (testEnv mixedListing noFault []) (listPrefix cfgPics) = Inr (Some mixedListing)"
  by (simp add: testEnv_def)

text \<open>
  The theorem on a listing with a folder placeholder, an upper-case extension, a text
  file, an empty image and a dot file.
\<close>

theorem listImages_by_extension_witness:
  "snd (listImages cfgPics (testEnv mixedListing noFault []) world0) =
     Inr [\<lparr>Key = ''pics/a.JPG'', Size = 10\<rparr>, \<lparr>Key = ''pics/empty.png'', Size = 0\<rparr>]"
proof -
  have e: "map (\<lambda>obj. toLowerCase (extname (Key obj))) mixedListing = [[], ''.jpg'', ''.txt'', ''.png'', []]"
    by code_simp
  show ?thesis
    using listImages_by_extension [OF mixedListing_list, of world0] e
    by (simp add: mixedListing_def)
qed

text \<open>
  Claim C8. The check reads the two environment variables only: with none of them set the
  program exits with code 1 although another source of credentials is available.
\<close>

theorem credentials_checked_in_environment_only:
  "main \<lparr>environ = Map.empty, ambientProvider = True\<rparr> cfg env w = (say CredentialsRequired w, Some 1)"
  by (simp add: main_def credentialsMissing_def unset_def)

text \<open>
  Claim C3. The derived key is the configured folder (with a slash, when it is not empty),
  then the last component of the source key with \<open>-\<close> and the size name put before its
  extension: the parent path of the source key is not part of it. For \<open>a/b/photo.jpg\<close> the
  key is \<open>a/b/photo-hd_1280x720.jpg\<close> only when the configured folder is \<open>a/b\<close>; with
  folder \<open>a\<close> or with the bucket root the folders below the configured one are dropped.
\<close>

theorem newKey_uses_configured_folder:
  "(\<exists>stem. stem @ extname originalKey = lastComponent originalKey
       \<and> newKey cfg originalKey sz =
             (if folderPath cfg = [] then [] else folderPath cfg @ ''/'')
             @ stem @ ''-'' @ name sz @ extname originalKey)
   \<and> newKey cfgRoot ''a/b/photo.jpg'' (sizes ! 2) = ''photo-hd_1280x720.jpg''
   \<and> newKey (cfgRoot\<lparr>folderPath := ''a''\<rparr>) ''a/b/photo.jpg'' (sizes ! 2)
       = ''a/photo-hd_1280x720.jpg''
   \<and> newKey (cfgRoot\<lparr>folderPath := ''a/b''\<rparr>) ''a/b/photo.jpg'' (sizes ! 2)
       = ''a/b/photo-hd_1280x720.jpg''"
proof (intro conjI)
  show "\<exists>stem. stem @ extname originalKey = lastComponent originalKey
       \<and> newKey cfg originalKey sz =
             (if folderPath cfg = [] then [] else folderPath cfg @ ''/'')
             @ stem @ ''-'' @ name sz @ extname originalKey"
    using basename_extname [of originalKey]
    by (intro exI [of _ "basename originalKey (extname originalKey)"]) (simp add: newKey_def Let_def)
  show "newKey cfgRoot ''a/b/photo.jpg'' (sizes ! 2) = ''photo-hd_1280x720.jpg''" by code_simp
  show "newKey (cfgRoot\<lparr>folderPath := ''a''\<rparr>) ''a/b/photo.jpg'' (sizes ! 2)
       = ''a/photo-hd_1280x720.jpg''" by code_simp
  show "newKey (cfgRoot\<lparr>folderPath := ''a/b''\<rparr>) ''a/b/photo.jpg'' (sizes ! 2)
       = ''a/b/photo-hd_1280x720.jpg''" by code_simp
qed

section \<open>The pipeline, step by step\<close>

lemma say_fields [simp]:
  "requests (say e w) = requests w" "published (say e w) = published w"
  "tmpfiles (say e w) = tmpfiles w" "console (say e w) = console w @ [e]"
  by (simp_all add: say_def)

lemma transcode_say [simp]: "transcode env (say e w) p sz = transcode env w p sz"
  by (simp add: transcode_def)

lemma processSizes_results:
  "fst (processSizes cfg env p k szs results w) =
     results @ map (\<lambda>sz. \<lparr>key = newKey cfg k sz, buffer = projr (transcode env w p sz),
                            size_name = name sz\<rparr>)
                (filter (\<lambda>sz. \<not> isl (transcode env w p sz)) szs)"
  by (induction szs arbitrary: results w) (auto split: sum.splits)

lemma processSizes_console:
  "console (snd (processSizes cfg env p k szs results w)) =
     console w @ map (\<lambda>sz. VariantFailed k (name sz) (message (projl (transcode env w p sz))))
                   (filter (\<lambda>sz. isl (transcode env w p sz)) szs)"
  by (induction szs arbitrary: results w) (auto split: sum.splits)

lemma processSizes_frame:
  "requests (snd (processSizes cfg env p k szs results w)) = requests w
   \<and> published (snd (processSizes cfg env p k szs results w)) = published w
   \<and> tmpfiles (snd (processSizes cfg env p k szs results w)) = tmpfiles w"
  by (induction szs arbitrary: results w) (auto split: sum.splits)

lemma uploadImage_ok:
  "s3_put env (requests w) (putParams cfg k buf) = None \<Longrightarrow>
   uploadImage cfg env k buf w =
     (w\<lparr>requests := Suc (requests w), published := (published w)(k \<mapsto> putParams cfg k buf)\<rparr>,
      Inr (objectUrl cfg k))"
  by (simp add: uploadImage_def Let_def)

lemma uploadImage_fail:
  "s3_put env (requests w) (putParams cfg k buf) = Some e \<Longrightarrow>
   uploadImage cfg env k buf w = (w\<lparr>requests := Suc (requests w)\<rparr>, Inl e)"
  by (simp add: uploadImage_def Let_def)

lemma uploadLoop_fail:
  assumes "k < length ps"
    and "\<forall>j<k. s3_put env (requests w + j) (putParams cfg (key (ps ! j)) (buffer (ps ! j))) = None"
    and "s3_put env (requests w + k) (putParams cfg (key (ps ! k)) (buffer (ps ! k))) = Some e"
  shows "uploadLoop cfg env ps acc w =
           (w\<lparr>requests := requests w + Suc k,
              published := published w ++
                map_of (rev (map (\<lambda>p. (key p, putParams cfg (key p) (buffer p))) (take k ps)))\<rparr>,
            Inl e)"
  using assms
proof (induction ps arbitrary: k acc w)
  case Nil
  then show ?case by simp
next
  case (Cons p ps)
  show ?case
  proof (cases k)
    case 0
    then show ?thesis using Cons.prems by (simp add: uploadImage_fail)
  next
    case (Suc k')
    let ?w1 = "w\<lparr>requests := Suc (requests w), published := (published w)(key p \<mapsto> putParams cfg (key p) (buffer p))\<rparr>"
    have p_ok: "s3_put env (requests w) (putParams cfg (key p) (buffer p)) = None"
      using Cons.prems(2) Suc by (metis add.right_neutral nth_Cons_0 zero_less_Suc)
    have rest_ok: "\<forall>j<k'. s3_put env (requests ?w1 + j) (putParams cfg (key (ps ! j)) (buffer (ps ! j))) = None"
    proof (intro allI impI)
      fix j assume "j < k'"
      then have "Suc j < k" using Suc by simp
      from Cons.prems(2) [rule_format, OF this] show "s3_put env (requests ?w1 + j) (putParams cfg (key (ps ! j)) (buffer (ps ! j))) = None"
        by simp
    qed
    have rest_bad: "s3_put env (requests ?w1 + k') (putParams cfg (key (ps ! k')) (buffer (ps ! k'))) = Some e"
      using Cons.prems(3) Suc by simp
    have k': "k' < length ps" using Cons.prems(1) Suc by simp
    show ?thesis
      using Cons.IH [OF k' rest_ok rest_bad] Suc
      by (simp add: uploadImage_ok [OF p_ok] map_add_def fun_eq_iff split: option.splits)
  qed
qed

lemma uploadLoop_ok:
  assumes "\<forall>j<length ps. s3_put env (requests w + j) (putParams cfg (key (ps ! j)) (buffer (ps ! j))) = None"
  shows "uploadLoop cfg env ps acc w =
           (w\<lparr>requests := requests w + length ps,
              published := published w ++
                map_of (rev (map (\<lambda>p. (key p, putParams cfg (key p) (buffer p))) ps))\<rparr>,
            Inr (acc @ map (\<lambda>p. \<lparr>u_size = size_name p, u_key = key p, url = objectUrl cfg (key p)\<rparr>) ps))"
  using assms
proof (induction ps arbitrary: acc w)
  case Nil
  then show ?case by simp
next
  case (Cons p ps)
  let ?w1 = "w\<lparr>requests := Suc (requests w), published := (published w)(key p \<mapsto> putParams cfg (key p) (buffer p))\<rparr>"
  have p_ok: "s3_put env (requests w) (putParams cfg (key p) (buffer p)) = None"
    using Cons.prems by (metis add.right_neutral length_greater_0_conv list.discI nth_Cons_0)
  have rest_ok: "\<forall>j<length ps. s3_put env (requests ?w1 + j) (putParams cfg (key (ps ! j)) (buffer (ps ! j))) = None"
  proof (intro allI impI)
    fix j assume "j < length ps"
    then have "Suc j < length (p # ps)" by simp
    from Cons.prems [rule_format, OF this] show "s3_put env (requests ?w1 + j) (putParams cfg (key (ps ! j)) (buffer (ps ! j))) = None"
      by simp
  qed
  show ?case
    using Cons.IH [OF rest_ok]
    by (simp add: uploadImage_ok [OF p_ok] map_add_def fun_eq_iff split: option.splits)
qed

lemma downloadImage_ok:
  "s3_get env (requests w) k = Inr buf \<Longrightarrow>
   downloadImage cfg env k w =
     (w\<lparr>requests := Suc (requests w),
        tmpfiles := (tmpfiles w)(tempDir cfg @ ''/'' @ basename k [] \<mapsto> buf)\<rparr>,
      Inr (tempDir cfg @ ''/'' @ basename k []))"
  by (simp add: downloadImage_def Let_def)

lemma downloadImage_fail:
  "s3_get env (requests w) k = Inl e \<Longrightarrow>
   downloadImage cfg env k w = (w\<lparr>requests := Suc (requests w)\<rparr>, Inl e)"
  by (simp add: downloadImage_def Let_def)

lemma downloadImage_Inr:
  assumes "downloadImage cfg env k w = (w1, Inr localPath)"
  shows "\<exists>buf. s3_get env (requests w) k = Inr buf
           \<and> localPath = tempDir cfg @ ''/'' @ basename k []
           \<and> w1 = w\<lparr>requests := Suc (requests w), tmpfiles := (tmpfiles w)(localPath \<mapsto> buf)\<rparr>"
  using assms by (auto simp: downloadImage_def Let_def split: sum.splits)

lemma processImage_results:
  "fst (processImage cfg env p k w) =
     map (\<lambda>sz. \<lparr>key = newKey cfg k sz, buffer = projr (transcode env w p sz), size_name = name sz\<rparr>)
       (filter (\<lambda>sz. \<not> isl (transcode env w p sz)) sizes)"
  by (simp add: processImage_def processSizes_results)

lemma processImage_frame:
  "requests (snd (processImage cfg env p k w)) = requests w
   \<and> published (snd (processImage cfg env p k w)) = published w
   \<and> tmpfiles (snd (processImage cfg env p k w)) = tmpfiles w"
  by (simp add: processImage_def processSizes_frame)

lemma processImage_console:
  "console (snd (processImage cfg env p k w)) =
     console w @ map (\<lambda>sz. VariantFailed k (name sz) (message (projl (transcode env w p sz))))
                   (filter (\<lambda>sz. isl (transcode env w p sz)) sizes)"
  by (simp add: processImage_def processSizes_console)

lemma newKey_inj: "newKey cfg k s = newKey cfg k t \<Longrightarrow> name s = name t"
  by (auto simp: newKey_def Let_def split: if_splits)

lemma distinct_size_names: "distinct (map name sizes)"
  by (simp add: sizes_def)

lemma distinct_newKeys: "distinct (map (newKey cfg k) sizes)"
proof -
  have "inj_on (newKey cfg k) (set sizes)"
  proof (rule inj_onI)
    fix s t assume s: "s \<in> set sizes" and t: "t \<in> set sizes" and "newKey cfg k s = newKey cfg k t"
    then have "name s = name t" by (rule_tac newKey_inj)
    with s t show "s = t" by (auto simp: sizes_def)
  qed
  moreover have "distinct sizes" by (simp add: sizes_def)
  ultimately show ?thesis by (simp add: distinct_map)
qed

lemma processImage_keys_distinct: "distinct (map key (fst (processImage cfg env p k w)))"
proof -
  have "map key (fst (processImage cfg env p k w)) =
          map (newKey cfg k) (filter (\<lambda>sz. \<not> isl (transcode env w p sz)) sizes)"
    by (simp add: processImage_results comp_def)
  then show ?thesis using distinct_newKeys [of cfg k] by (simp add: distinct_map_filter)
qed

lemma uploadImage_published_mono:
  "dom (published w) \<subseteq> dom (published (fst (uploadImage cfg env k buf w)))"
  by (auto simp: uploadImage_def Let_def split: option.splits)

lemma uploadLoop_published_mono:
  "dom (published w) \<subseteq> dom (published (fst (uploadLoop cfg env ps acc w)))"
proof (induction ps arbitrary: acc w)
  case Nil
  then show ?case by simp
next
  case (Cons p ps)
  obtain w1 r where u: "uploadImage cfg env (key p) (buffer p) w = (w1, r)" by (cases "uploadImage cfg env (key p) (buffer p) w")
  have m: "dom (published w) \<subseteq> dom (published w1)"
    using uploadImage_published_mono [of w cfg env "key p" "buffer p"] u by simp
  show ?case
  proof (cases r)
    case (Inl e)
    then show ?thesis using u m by simp
  next
    case (Inr x)
    then show ?thesis using u m Cons.IH [of w1] by (simp del: dom_eq_empty_conv) blast
  qed
qed

lemma tryImage_published_mono:
  "dom (published w) \<subseteq> dom (published (fst (tryImage cfg env img w)))"
proof (cases "s3_get env (requests w) (Key img)")
  case (Inl e)
  then show ?thesis by (simp add: tryImage_def downloadImage_fail)
next
  case (Inr buf)
  let ?p = "tempDir cfg @ ''/'' @ basename (Key img) []"
  let ?w1 = "w\<lparr>requests := Suc (requests w), tmpfiles := (tmpfiles w)(?p \<mapsto> buf)\<rparr>"
  obtain ps w2 where pi: "processImage cfg env ?p (Key img) ?w1 = (ps, w2)"
    by (cases "processImage cfg env ?p (Key img) ?w1")
  have p2: "published w2 = published w"
    using processImage_frame [of cfg env ?p "Key img" ?w1] pi by simp
  obtain w3 r where ul: "uploadLoop cfg env ps [] w2 = (w3, r)" by (cases "uploadLoop cfg env ps [] w2")
  have "dom (published w2) \<subseteq> dom (published w3)"
    using uploadLoop_published_mono [of w2 cfg env ps "[]"] ul by simp
  then show ?thesis
    using Inr pi ul p2
    by (cases r) (simp_all add: tryImage_def downloadImage_ok Let_def)
qed

lemma processOne_published_mono:
  "dom (published w) \<subseteq> dom (published (fst (processOne cfg env img w)))"
  using tryImage_published_mono [of w cfg env img]
  by (cases "tryImage cfg env img w") (auto simp: processOne_def split: sum.splits)

lemma processLoop_published_mono:
  "dom (published w) \<subseteq> dom (published (fst (processLoop cfg env imgs acc w)))"
proof (induction imgs arbitrary: acc w)
  case Nil
  then show ?case by simp
next
  case (Cons img imgs)
  obtain w1 r where po: "processOne cfg env img w = (w1, r)" by (cases "processOne cfg env img w")
  obtain acc' where step: "processLoop cfg env (img # imgs) acc w = processLoop cfg env imgs acc' w1"
    using po by (cases r) auto
  have "dom (published w) \<subseteq> dom (published w1)"
    using processOne_published_mono [of w cfg env img] po by simp
  also have "\<dots> \<subseteq> dom (published (fst (processLoop cfg env imgs acc' w1)))"
    by (rule Cons.IH)
  finally show ?case using step by simp
qed

text \<open>The answers of the concrete surroundings.\<close>

lemma testEnv_put:
  "s3_put (testEnv objs failing bad) n p = (if failing n then Some (Error ''AccessDenied'') else None)"
  by (simp add: testEnv_def)

lemma testEnv_get:
  "s3_get (testEnv objs failing bad) n k =
     (if failing n then Inl (Error ''NetworkingError'') else Inr [255, 216, 255])"
  by (simp add: testEnv_def)

lemma testEnv_sharp:
  "sharp (testEnv objs failing bad) content opts =
     (if opts \<in> set bad then Inl (Error ''Input buffer contains unsupported image format'')
      else Inr content)"
  by (simp add: testEnv_def)

section \<open>Publishing is not atomic\<close>

lemma map_of_rev_distinct:
  assumes "distinct (map fst l)" and "(a, b) \<in> set l"
  shows "map_of (rev l) a = Some b"
  using assms by (intro map_of_is_SomeI) (simp_all add: rev_map [symmetric])

lemma tryImage_publish_fail:
  assumes dl: "downloadImage cfg env (Key img) w = (w1, Inr localPath)"
    and pi: "processImage cfg env localPath (Key img) w1 = (ps, w2)"
    and k: "k < length ps"
    and ok: "\<forall>j<k. s3_put env (requests w2 + j) (putParams cfg (key (ps ! j)) (buffer (ps ! j))) = None"
    and bad: "s3_put env (requests w2 + k) (putParams cfg (key (ps ! k)) (buffer (ps ! k))) = Some e"
  shows "tryImage cfg env img w =
           (w2\<lparr>requests := requests w2 + Suc k,
               published := published w2 ++
                 map_of (rev (map (\<lambda>p. (key p, putParams cfg (key p) (buffer p))) (take k ps)))\<rparr>,
            Inl e)"
  using dl pi uploadLoop_fail [OF k ok bad, of "[]"] by (simp add: tryImage_def)

lemma processOne_publish_fail:
  assumes dl: "downloadImage cfg env (Key img) w = (w1, Inr localPath)"
    and pi: "processImage cfg env localPath (Key img) w1 = (ps, w2)"
    and k: "k < length ps"
    and ok: "\<forall>j<k. s3_put env (requests w2 + j) (putParams cfg (key (ps ! j)) (buffer (ps ! j))) = None"
    and bad: "s3_put env (requests w2 + k) (putParams cfg (key (ps ! k)) (buffer (ps ! k))) = Some e"
  shows "processOne cfg env img w =
           (say (ObjectFailed (Key img) (message e))
              (w2\<lparr>requests := requests w2 + Suc k,
                  published := published w2 ++
                    map_of (rev (map (\<lambda>p. (key p, putParams cfg (key p) (buffer p))) (take k ps)))\<rparr>),
            None)"
  using tryImage_publish_fail [OF assms] by (simp add: processOne_def)

text \<open>
  Claim C10. When the download of an object succeeded and \<open>processImage\<close> returned
  \<open>ps\<close>, and the uploads of the first \<open>k\<close> variants succeed and the next one fails,
  then after the object's processing the first \<open>k\<close> variants are in the bucket with the
  bytes that were put, the variant that failed and those after it are as they were before,
  and the keys of the first \<open>k\<close> are still in the bucket when the run over the remaining
  objects is over.
\<close>

theorem published_variants_remain:
  assumes dl: "downloadImage cfg env (Key img) w = (w1, Inr localPath)"
    and pi: "processImage cfg env localPath (Key img) w1 = (ps, w2)"
    and k: "k < length ps"
    and ok: "\<forall>j<k. s3_put env (requests w2 + j) (putParams cfg (key (ps ! j)) (buffer (ps ! j))) = None"
    and bad: "s3_put env (requests w2 + k) (putParams cfg (key (ps ! k)) (buffer (ps ! k))) = Some e"
  shows "(\<forall>j<k. published (fst (processOne cfg env img w)) (key (ps ! j))
                  = Some (putParams cfg (key (ps ! j)) (buffer (ps ! j))))
       \<and> (\<forall>j. k \<le> j \<and> j < length ps \<longrightarrow>
             published (fst (processOne cfg env img w)) (key (ps ! j)) = published w (key (ps ! j)))
       \<and> (\<forall>j<k. key (ps ! j) \<in> dom (published (fst (processLoop cfg env (img # rest) acc w))))"
proof -
  let ?l = "map (\<lambda>p. (key p, putParams cfg (key p) (buffer p))) (take k ps)"
  let ?w' = "fst (processOne cfg env img w)"
  have pub: "published ?w' = published w2 ++ map_of (rev ?l)"
    using processOne_publish_fail [OF assms] by simp
  from downloadImage_Inr [OF dl] have p1: "published w1 = published w" by auto
  have p2: "published w2 = published w"
    using processImage_frame [of cfg env localPath "Key img" w1] pi p1 by simp
  have dist: "distinct (map key ps)"
    using processImage_keys_distinct [of cfg env localPath "Key img" w1] pi by simp
  have fst_l: "map fst ?l = take k (map key ps)" by (simp add: take_map comp_def)
  have dl': "distinct (map fst ?l)" using dist by (simp only: fst_l distinct_take)
  have first: "published ?w' (key (ps ! j)) = Some (putParams cfg (key (ps ! j)) (buffer (ps ! j)))"
    if "j < k" for j
  proof -
    have "ps ! j \<in> set (take k ps)" using that k by (metis in_set_conv_nth length_take min_less_iff_conj nth_take order_less_imp_le min.absorb2 less_imp_le_nat)
    then have "(key (ps ! j), putParams cfg (key (ps ! j)) (buffer (ps ! j))) \<in> set ?l" by auto
    from map_of_rev_distinct [OF dl' this] show ?thesis by (simp add: pub)
  qed
  have later: "published ?w' (key (ps ! j)) = published w (key (ps ! j))"
    if "k \<le> j" and "j < length ps" for j
  proof -
    have "key (ps ! j) \<notin> set (take k (map key ps))"
    proof
      assume "key (ps ! j) \<in> set (take k (map key ps))"
      then obtain i where i: "i < k" "i < length ps" "key (ps ! i) = key (ps ! j)"
        by (auto simp: in_set_conv_nth)
      have li: "i < length (map key ps)" and lj: "j < length (map key ps)" using i that by simp_all
      have "map key ps ! i = map key ps ! j" using i that by simp
      then have "i = j" using nth_eq_iff_index_eq [OF dist li lj] by simp
      with i that show False by simp
    qed
    then have "map_of (rev ?l) (key (ps ! j)) = None"
      by (simp add: map_of_eq_None_iff fst_l [symmetric] del: map_map)
    then show ?thesis by (simp add: pub p2 map_add_def)
  qed
  have kept: "key (ps ! j) \<in> dom (published (fst (processLoop cfg env (img # rest) acc w)))"
    if "j < k" for j
  proof -
    have po: "processOne cfg env img w = (?w', None)"
      using processOne_publish_fail [OF assms] by simp
    have step: "processLoop cfg env (img # rest) acc w = processLoop cfg env rest acc ?w'"
      by (subst processLoop.simps, subst po) simp
    have "key (ps ! j) \<in> dom (published ?w')" using first [OF that] by blast
    then show ?thesis
      using processLoop_published_mono [of ?w' cfg env rest acc] step by auto
  qed
  show ?thesis using first later kept by blast
qed

text \<open>
  The theorem on an object with four variants whose third upload is refused.
\<close>

theorem published_variants_remain_witness:
  "published (fst (processOne cfgPics (testEnv twoImages (faultAt 4) []) (hd twoImages) listed))
     ''pics/a-default.jpg'' \<noteq> None
   \<and> published (fst (processOne cfgPics (testEnv twoImages (faultAt 4) []) (hd twoImages) listed))
     ''pics/a-sd_320x180.jpg'' \<noteq> None
   \<and> published (fst (processOne cfgPics (testEnv twoImages (faultAt 4) []) (hd twoImages) listed))
     ''pics/a-hd_1280x720.jpg'' = None
   \<and> published (fst (processOne cfgPics (testEnv twoImages (faultAt 4) []) (hd twoImages) listed))
     ''pics/a-fhd_1920x1080.jpg'' = None
   \<and> ''pics/a-sd_320x180.jpg''
        \<in> dom (published (fst (processLoop cfgPics (testEnv twoImages (faultAt 4) []) twoImages [] listed)))"
proof -
  let ?env = "testEnv twoImages (faultAt 4) []"
  let ?img = "hd twoImages"
  let ?d = "downloadImage cfgPics ?env (Key ?img) listed"
  let ?p = "processImage cfgPics ?env ''/tmp/s3-processor-1/a.jpg'' (Key ?img) (fst ?d)"
  let ?ps = "fst ?p"
  have "snd ?d = Inr ''/tmp/s3-processor-1/a.jpg''" by code_simp
  then have h1: "?d = (fst ?d, Inr ''/tmp/s3-processor-1/a.jpg'')" by (simp add: prod_eq_iff)
  have h2: "?p = (?ps, snd ?p)" by simp
  have r2: "requests (snd ?p) = 2" by code_simp
  have len: "length ?ps = 4" by code_simp
  have k: "2 < length ?ps" using len by simp
  have ok: "\<forall>j<2. s3_put ?env (requests (snd ?p) + j)
              (putParams cfgPics (key (?ps ! j)) (buffer (?ps ! j))) = None"
    unfolding testEnv_put r2 faultAt_def by simp
  have bad: "s3_put ?env (requests (snd ?p) + 2)
              (putParams cfgPics (key (?ps ! 2)) (buffer (?ps ! 2))) = Some (Error ''AccessDenied'')"
    unfolding testEnv_put r2 faultAt_def by simp
  have keys: "key (?ps ! 0) = ''pics/a-default.jpg''" "key (?ps ! 1) = ''pics/a-sd_320x180.jpg''"
    "key (?ps ! 2) = ''pics/a-hd_1280x720.jpg''" "key (?ps ! 3) = ''pics/a-fhd_1920x1080.jpg''"
    by code_simp+
  have tw: "twoImages = ?img # tl twoImages" by (simp add: twoImages_def)
  have none: "published listed x = None" for x by (simp add: listed_def world0_def)
  note T = published_variants_remain [OF h1 h2 k ok bad, of "tl twoImages" "[]"]
  from T have a: "\<forall>j<2. published (fst (processOne cfgPics ?env ?img listed)) (key (?ps ! j))
                  = Some (putParams cfgPics (key (?ps ! j)) (buffer (?ps ! j)))" by blast
  from T have b: "\<forall>j. 2 \<le> j \<and> j < length ?ps \<longrightarrow>
             published (fst (processOne cfgPics ?env ?img listed)) (key (?ps ! j)) = published listed (key (?ps ! j))" by blast
  from T have c: "\<forall>j<2. key (?ps ! j) \<in> dom (published (fst (processLoop cfgPics ?env (?img # tl twoImages) [] listed)))" by blast
  have "published (fst (processOne cfgPics ?env ?img listed)) ''pics/a-default.jpg'' \<noteq> None"
    using a [rule_format, of 0] keys by simp
  moreover have "published (fst (processOne cfgPics ?env ?img listed)) ''pics/a-sd_320x180.jpg'' \<noteq> None"
    using a [rule_format, of 1] keys by simp
  moreover have "published (fst (processOne cfgPics ?env ?img listed)) ''pics/a-hd_1280x720.jpg'' = None"
    using b [rule_format, of 2] keys len none by simp
  moreover have "published (fst (processOne cfgPics ?env ?img listed)) ''pics/a-fhd_1920x1080.jpg'' = None"
    using b [rule_format, of 3] keys len none by simp
  moreover have "''pics/a-sd_320x180.jpg'' \<in> dom (published (fst (processLoop cfgPics ?env twoImages [] listed)))"
    using c [rule_format, of 1] keys tw by simp
  ultimately show ?thesis by blast
qed

section \<open>Variant failures\<close>

lemma tryImage_all_published:
  assumes dl: "downloadImage cfg env (Key img) w = (w1, Inr localPath)"
    and pi: "processImage cfg env localPath (Key img) w1 = (ps, w2)"
    and ok: "\<forall>j<length ps. s3_put env (requests w2 + j) (putParams cfg (key (ps ! j)) (buffer (ps ! j))) = None"
  shows "snd (tryImage cfg env img w) =
           Inr \<lparr>original = Key img,
                processed = map (\<lambda>p. \<lparr>u_size = size_name p, u_key = key p, url = objectUrl cfg (key p)\<rparr>) ps\<rparr>"
  using dl pi uploadLoop_ok [OF ok, of "[]"] by (simp add: tryImage_def Let_def)

text \<open>
  Claim C1, amended. When the download of an object succeeded and \<open>processImage\<close>
  returned \<open>ps\<close>: every size of the catalog was attempted, \<open>ps\<close> holds, in catalog
  order, the sizes that the image library transcoded, and each transcode failure was
  caught and logged for its variant alone. When every upload succeeds the outcome of the
  object lists exactly these variants. A publish failure is caught at the object boundary:
  when the upload of variant \<open>k\<close> fails, no request is sent for the variants after it, no
  outcome is recorded for the object, the failure is logged, and the run goes on with the
  next object.
\<close>

theorem variant_failure_scope:
  assumes dl: "downloadImage cfg env (Key img) w = (w1, Inr localPath)"
    and pi: "processImage cfg env localPath (Key img) w1 = (ps, w2)"
  shows "(\<exists>content. s3_get env (requests w) (Key img) = Inr content
            \<and> map size_name ps =
                map name (filter (\<lambda>sz. \<not> isl (sharp env content (resizeRequest sz))) sizes)
            \<and> console w2 = console w1 @
                map (\<lambda>sz. VariantFailed (Key img) (name sz)
                              (message (projl (sharp env content (resizeRequest sz)))))
                  (filter (\<lambda>sz. isl (sharp env content (resizeRequest sz))) sizes))
       \<and> ((\<forall>j<length ps. s3_put env (requests w2 + j)
                (putParams cfg (key (ps ! j)) (buffer (ps ! j))) = None)
            \<longrightarrow> snd (processOne cfg env img w) =
                  Some \<lparr>original = Key img,
                        processed = map (\<lambda>p. \<lparr>u_size = size_name p, u_key = key p,
                                                 url = objectUrl cfg (key p)\<rparr>) ps\<rparr>)
       \<and> (\<forall>k e. k < length ps
              \<and> (\<forall>j<k. s3_put env (requests w2 + j)
                     (putParams cfg (key (ps ! j)) (buffer (ps ! j))) = None)
              \<and> s3_put env (requests w2 + k)
                     (putParams cfg (key (ps ! k)) (buffer (ps ! k))) = Some e
            \<longrightarrow> snd (processOne cfg env img w) = None
              \<and> requests (fst (processOne cfg env img w)) = requests w2 + Suc k
              \<and> console (fst (processOne cfg env img w)) =
                  console w2 @ [ObjectFailed (Key img) (message e)]
              \<and> processLoop cfg env (img # rest) acc w =
                  processLoop cfg env rest acc (fst (processOne cfg env img w)))"
proof (intro conjI)
  from downloadImage_Inr [OF dl] obtain content where
    get: "s3_get env (requests w) (Key img) = Inr content"
    and w1: "w1 = w\<lparr>requests := Suc (requests w), tmpfiles := (tmpfiles w)(localPath \<mapsto> content)\<rparr>"
    by blast
  have tr: "transcode env w1 localPath sz = sharp env content (resizeRequest sz)" for sz
    by (simp add: transcode_def w1)
  have "map size_name ps =
          map name (filter (\<lambda>sz. \<not> isl (sharp env content (resizeRequest sz))) sizes)"
    using processImage_results [of cfg env localPath "Key img" w1] pi by (simp add: tr comp_def)
  moreover have "console w2 = console w1 @
                map (\<lambda>sz. VariantFailed (Key img) (name sz)
                              (message (projl (sharp env content (resizeRequest sz)))))
                  (filter (\<lambda>sz. isl (sharp env content (resizeRequest sz))) sizes)"
    using processImage_console [of cfg env localPath "Key img" w1] pi by (simp add: tr)
  ultimately show "\<exists>content. s3_get env (requests w) (Key img) = Inr content
            \<and> map size_name ps =
                map name (filter (\<lambda>sz. \<not> isl (sharp env content (resizeRequest sz))) sizes)
            \<and> console w2 = console w1 @
                map (\<lambda>sz. VariantFailed (Key img) (name sz)
                              (message (projl (sharp env content (resizeRequest sz)))))
                  (filter (\<lambda>sz. isl (sharp env content (resizeRequest sz))) sizes)"
    using get by blast
next
  show "(\<forall>j<length ps. s3_put env (requests w2 + j)
                (putParams cfg (key (ps ! j)) (buffer (ps ! j))) = None)
            \<longrightarrow> snd (processOne cfg env img w) =
                  Some \<lparr>original = Key img,
                        processed = map (\<lambda>p. \<lparr>u_size = size_name p, u_key = key p,
                                                 url = objectUrl cfg (key p)\<rparr>) ps\<rparr>"
  proof
    assume ok: "\<forall>j<length ps. s3_put env (requests w2 + j)
                (putParams cfg (key (ps ! j)) (buffer (ps ! j))) = None"
    from tryImage_all_published [OF dl pi ok] show "snd (processOne cfg env img w) =
                  Some \<lparr>original = Key img,
                        processed = map (\<lambda>p. \<lparr>u_size = size_name p, u_key = key p,
                                                 url = objectUrl cfg (key p)\<rparr>) ps\<rparr>"
      by (cases "tryImage cfg env img w") (simp add: processOne_def)
  qed
next
  show "\<forall>k e. k < length ps
              \<and> (\<forall>j<k. s3_put env (requests w2 + j)
                     (putParams cfg (key (ps ! j)) (buffer (ps ! j))) = None)
              \<and> s3_put env (requests w2 + k)
                     (putParams cfg (key (ps ! k)) (buffer (ps ! k))) = Some e
            \<longrightarrow> snd (processOne cfg env img w) = None
              \<and> requests (fst (processOne cfg env img w)) = requests w2 + Suc k
              \<and> console (fst (processOne cfg env img w)) =
                  console w2 @ [ObjectFailed (Key img) (message e)]
              \<and> processLoop cfg env (img # rest) acc w =
                  processLoop cfg env rest acc (fst (processOne cfg env img w))"
  proof (intro allI impI, elim conjE)
    fix k e
    assume k: "k < length ps"
      and ok: "\<forall>j<k. s3_put env (requests w2 + j)
                     (putParams cfg (key (ps ! j)) (buffer (ps ! j))) = None"
      and bad: "s3_put env (requests w2 + k)
                     (putParams cfg (key (ps ! k)) (buffer (ps ! k))) = Some e"
    note po = processOne_publish_fail [OF dl pi k ok bad]
    have step: "processLoop cfg env (img # rest) acc w =
                  processLoop cfg env rest acc (fst (processOne cfg env img w))"
      by (subst processLoop.simps, subst po) (simp add: po)
    show "snd (processOne cfg env img w) = None
              \<and> requests (fst (processOne cfg env img w)) = requests w2 + Suc k
              \<and> console (fst (processOne cfg env img w)) =
                  console w2 @ [ObjectFailed (Key img) (message e)]
              \<and> processLoop cfg env (img # rest) acc w =
                  processLoop cfg env rest acc (fst (processOne cfg env img w))"
      using step by (simp add: po)
  qed
qed

text \<open>
  Claim C1, as stated, fails for publish errors: with the upload of the second variant of
  \<open>pics/a.jpg\<close> refused, its third and fourth variants are never uploaded (nine requests
  are sent in the run, not eleven), and the object has no outcome in the result list.
\<close>

theorem publish_failure_ends_object_counterexample:
  "published (fst (processAllImages cfgPics (testEnv twoImages (faultAt 3) []) world0))
     ''pics/a-hd_1280x720.jpg'' = None
   \<and> published (fst (processAllImages cfgPics (testEnv twoImages (faultAt 3) []) world0))
     ''pics/a-fhd_1920x1080.jpg'' = None
   \<and> requests (fst (processAllImages cfgPics (testEnv twoImages (faultAt 3) []) world0)) = 9
   \<and> (case snd (processAllImages cfgPics (testEnv twoImages (faultAt 3) []) world0) of
         Inr (Some rs) \<Rightarrow> map original rs | _ \<Rightarrow> []) = [''pics/b.png'']"
  by code_simp

text \<open>
  The theorem on an object whose third size fails to transcode: once with the upload of
  its second variant refused, once with every upload accepted.
\<close>

theorem variant_failure_scope_witness:
  "map size_name
     (fst (processImage cfgPics (testEnv twoImages (faultAt 3) [resizeRequest (sizes ! 2)])
             ''/tmp/s3-processor-1/a.jpg'' ''pics/a.jpg''
             (fst (downloadImage cfgPics (testEnv twoImages (faultAt 3) [resizeRequest (sizes ! 2)])
                     ''pics/a.jpg'' listed))))
     = [''default'', ''sd_320x180'', ''fhd_1920x1080'']
   \<and> snd (processOne cfgPics (testEnv twoImages (faultAt 3) [resizeRequest (sizes ! 2)])
             (hd twoImages) listed) = None
   \<and> requests (fst (processOne cfgPics (testEnv twoImages (faultAt 3) [resizeRequest (sizes ! 2)])
                       (hd twoImages) listed)) = 4
   \<and> processLoop cfgPics (testEnv twoImages (faultAt 3) [resizeRequest (sizes ! 2)])
        twoImages [] listed
      = processLoop cfgPics (testEnv twoImages (faultAt 3) [resizeRequest (sizes ! 2)])
          (tl twoImages) []
          (fst (processOne cfgPics (testEnv twoImages (faultAt 3) [resizeRequest (sizes ! 2)])
                  (hd twoImages) listed))
   \<and> map u_size
       (processed (the (snd (processOne cfgPics (testEnv twoImages noFault [resizeRequest (sizes ! 2)])
                               (hd twoImages) listed))))
     = [''default'', ''sd_320x180'', ''fhd_1920x1080'']"
proof -
  let ?bad = "[resizeRequest (sizes ! 2)]"
  let ?envA = "testEnv twoImages (faultAt 3) ?bad"
  let ?envB = "testEnv twoImages noFault ?bad"
  let ?img = "hd twoImages"
  let ?path = "''/tmp/s3-processor-1/a.jpg''"
  let ?dA = "downloadImage cfgPics ?envA (Key ?img) listed"
  let ?pA = "processImage cfgPics ?envA ?path (Key ?img) (fst ?dA)"
  let ?dB = "downloadImage cfgPics ?envB (Key ?img) listed"
  let ?pB = "processImage cfgPics ?envB ?path (Key ?img) (fst ?dB)"
  have kimg: "Key ?img = ''pics/a.jpg''" by (simp add: twoImages_def)
  have tw: "twoImages = ?img # tl twoImages" by (simp add: twoImages_def)
  have "snd ?dA = Inr ?path" by code_simp
  then have dA: "?dA = (fst ?dA, Inr ?path)" by (simp add: prod_eq_iff)
  have pA: "?pA = (fst ?pA, snd ?pA)" by simp
  have "snd ?dB = Inr ?path" by code_simp
  then have dB: "?dB = (fst ?dB, Inr ?path)" by (simp add: prod_eq_iff)
  have pB: "?pB = (fst ?pB, snd ?pB)" by simp
  have rA: "requests (snd ?pA) = 2" by code_simp
  have rB: "requests (snd ?pB) = 2" by code_simp
  have lenA: "length (fst ?pA) = 3" by code_simp
  have names: "map size_name (fst ?pA) = [''default'', ''sd_320x180'', ''fhd_1920x1080'']"
    by code_simp
  have namesB: "map size_name (fst ?pB) = [''default'', ''sd_320x180'', ''fhd_1920x1080'']"
    by code_simp
  note TA = variant_failure_scope [OF dA pA, of "tl twoImages" "[]"]
  note TB = variant_failure_scope [OF dB pB, of "tl twoImages" "[]"]
  have okA: "\<forall>j<1. s3_put ?envA (requests (snd ?pA) + j)
               (putParams cfgPics (key (fst ?pA ! j)) (buffer (fst ?pA ! j))) = None"
    unfolding testEnv_put rA faultAt_def by simp
  have badA: "s3_put ?envA (requests (snd ?pA) + 1)
               (putParams cfgPics (key (fst ?pA ! 1)) (buffer (fst ?pA ! 1))) = Some (Error ''AccessDenied'')"
    unfolding testEnv_put rA faultAt_def by simp
  from TA have "1 < length (fst ?pA) \<and> (\<forall>j<1. s3_put ?envA (requests (snd ?pA) + j)
               (putParams cfgPics (key (fst ?pA ! j)) (buffer (fst ?pA ! j))) = None)
        \<and> s3_put ?envA (requests (snd ?pA) + 1)
               (putParams cfgPics (key (fst ?pA ! 1)) (buffer (fst ?pA ! 1))) = Some (Error ''AccessDenied'')
      \<longrightarrow> snd (processOne cfgPics ?envA ?img listed) = None
          \<and> requests (fst (processOne cfgPics ?envA ?img listed)) = requests (snd ?pA) + Suc 1
          \<and> console (fst (processOne cfgPics ?envA ?img listed)) =
                  console (snd ?pA) @ [ObjectFailed (Key ?img) (message (Error ''AccessDenied''))]
          \<and> processLoop cfgPics ?envA (?img # tl twoImages) [] listed =
                  processLoop cfgPics ?envA (tl twoImages) [] (fst (processOne cfgPics ?envA ?img listed))"
    by blast
  with okA badA lenA have failA: "snd (processOne cfgPics ?envA ?img listed) = None
          \<and> requests (fst (processOne cfgPics ?envA ?img listed)) = requests (snd ?pA) + Suc 1
          \<and> processLoop cfgPics ?envA (?img # tl twoImages) [] listed =
                  processLoop cfgPics ?envA (tl twoImages) [] (fst (processOne cfgPics ?envA ?img listed))"
    by simp
  have okB: "\<forall>j<length (fst ?pB). s3_put ?envB (requests (snd ?pB) + j)
               (putParams cfgPics (key (fst ?pB ! j)) (buffer (fst ?pB ! j))) = None"
    unfolding testEnv_put noFault_def by simp
  with TB have "snd (processOne cfgPics ?envB ?img listed) =
                  Some \<lparr>original = Key ?img,
                        processed = map (\<lambda>p. \<lparr>u_size = size_name p, u_key = key p,
                                                 url = objectUrl cfgPics (key p)\<rparr>) (fst ?pB)\<rparr>"
    by blast
  then have outB: "map u_size (processed (the (snd (processOne cfgPics ?envB ?img listed))))
                     = map size_name (fst ?pB)"
    by (simp add: comp_def)
  show ?thesis
    using names failA outB namesB rA tw kimg by simp
qed

section \<open>One outcome for each processed object\<close>

lemma processOne_download_fail:
  "s3_get env (requests w) (Key img) = Inl e \<Longrightarrow>
   processOne cfg env img w =
     (say (ObjectFailed (Key img) (message e)) (w\<lparr>requests := Suc (requests w)\<rparr>), None)"
  by (simp add: processOne_def tryImage_def downloadImage_fail)

lemma tryImage_original:
  "tryImage cfg env img w = (w', Inr r) \<Longrightarrow> original r = Key img"
  by (auto simp: tryImage_def Let_def split: prod.splits sum.splits)

lemma processOne_original:
  "processOne cfg env img w = (w', Some r) \<Longrightarrow> original r = Key img"
  by (auto simp: processOne_def split: prod.splits sum.splits dest: tryImage_original)

lemma processLoop_subseq:
  "\<exists>ks. map original (snd (processLoop cfg env imgs acc w)) = map original acc @ ks
        \<and> subseq ks (map Key imgs)"
proof (induction imgs arbitrary: acc w)
  case Nil
  then show ?case by simp
next
  case (Cons img imgs)
  obtain w1 r where po: "processOne cfg env img w = (w1, r)" by (cases "processOne cfg env img w")
  show ?case
  proof (cases r)
    case None
    from Cons.IH [of acc w1] obtain ks where
      "map original (snd (processLoop cfg env imgs acc w1)) = map original acc @ ks"
      "subseq ks (map Key imgs)" by blast
    then show ?thesis using po None by (auto intro: subseq_Cons')
  next
    case (Some a)
    from Cons.IH [of "acc @ [a]" w1] obtain ks where
      ks: "map original (snd (processLoop cfg env imgs (acc @ [a]) w1)) = map original (acc @ [a]) @ ks"
      "subseq ks (map Key imgs)" by blast
    have "original a = Key img" using po Some by (auto dest: processOne_original)
    then have "subseq (original a # ks) (map Key (img # imgs))" using ks(2) by simp
    then show ?thesis using po Some ks(1) by auto
  qed
qed

lemma processImage_staged:
  assumes "tmpfiles w1 localPath = Some content"
    and "processImage cfg env localPath k w1 = (ps, w2)"
  shows "map size_name ps =
           map name (filter (\<lambda>sz. \<not> isl (sharp env content (resizeRequest sz))) sizes)"
proof -
  have tr: "transcode env w1 localPath sz = sharp env content (resizeRequest sz)" for sz
    using assms(1) by (simp add: transcode_def)
  show ?thesis
    using processImage_results [of cfg env localPath k w1] assms(2) by (simp add: tr comp_def)
qed

lemma processOne_all_ok:
  assumes get: "\<forall>n k. \<not> isl (s3_get env n k)" and put: "\<forall>n p. s3_put env n p = None"
  shows "\<exists>w' ups. processOne cfg env img w = (w', Some \<lparr>original = Key img, processed = ups\<rparr>)
           \<and> map u_size ups =
               map name (filter (\<lambda>sz. \<not> isl (sharp env (projr (s3_get env (requests w) (Key img)))
                                                  (resizeRequest sz))) sizes)"
proof -
  obtain content where g: "s3_get env (requests w) (Key img) = Inr content"
  proof (cases "s3_get env (requests w) (Key img)")
    case (Inl a)
    moreover have "\<not> isl (s3_get env (requests w) (Key img))" using get by blast
    ultimately show ?thesis by simp
  next
    case (Inr b)
    then show ?thesis by (rule that)
  qed
  let ?p = "tempDir cfg @ ''/'' @ basename (Key img) []"
  let ?w1 = "w\<lparr>requests := Suc (requests w), tmpfiles := (tmpfiles w)(?p \<mapsto> content)\<rparr>"
  have dl: "downloadImage cfg env (Key img) w = (?w1, Inr ?p)" by (rule downloadImage_ok [OF g])
  obtain ps w2 where pi: "processImage cfg env ?p (Key img) ?w1 = (ps, w2)"
    by (cases "processImage cfg env ?p (Key img) ?w1")
  have ok: "\<forall>j<length ps. s3_put env (requests w2 + j) (putParams cfg (key (ps ! j)) (buffer (ps ! j))) = None"
    using put by simp
  from tryImage_all_published [OF dl pi ok]
  have out: "snd (processOne cfg env img w) =
                  Some \<lparr>original = Key img,
                        processed = map (\<lambda>p. \<lparr>u_size = size_name p, u_key = key p,
                                                 url = objectUrl cfg (key p)\<rparr>) ps\<rparr>"
    by (cases "tryImage cfg env img w") (simp add: processOne_def)
  have "tmpfiles ?w1 ?p = Some content" by simp
  from processImage_staged [OF this pi]
  have "map size_name ps =
               map name (filter (\<lambda>sz. \<not> isl (sharp env (projr (s3_get env (requests w) (Key img)))
                                                  (resizeRequest sz))) sizes)"
    using g by simp
  then show ?thesis using out
    by (cases "processOne cfg env img w") (simp add: comp_def)
qed

lemma processLoop_all_ok:
  assumes get: "\<forall>n k. \<not> isl (s3_get env n k)" and put: "\<forall>n p. s3_put env n p = None"
  shows "map original (snd (processLoop cfg env imgs acc w)) = map original acc @ map Key imgs"
proof (induction imgs arbitrary: acc w)
  case Nil
  then show ?case by simp
next
  case (Cons img imgs)
  from processOne_all_ok [OF get put, of cfg img w] obtain w' ups where
    po: "processOne cfg env img w = (w', Some \<lparr>original = Key img, processed = ups\<rparr>)" by blast
  show ?case using Cons.IH [of "acc @ [\<lparr>original = Key img, processed = ups\<rparr>]" w'] po by simp
qed

lemma processLoop_none_transcoded:
  assumes get: "\<forall>n k. \<not> isl (s3_get env n k)" and put: "\<forall>n p. s3_put env n p = None"
    and bad: "\<forall>content. \<forall>sz \<in> set sizes. isl (sharp env content (resizeRequest sz))"
  shows "snd (processLoop cfg env imgs acc w) =
           acc @ map (\<lambda>i. \<lparr>original = Key i, processed = []\<rparr>) imgs"
proof (induction imgs arbitrary: acc w)
  case Nil
  then show ?case by simp
next
  case (Cons img imgs)
  from processOne_all_ok [OF get put, of cfg img w] obtain w' ups where
    po: "processOne cfg env img w = (w', Some \<lparr>original = Key img, processed = ups\<rparr>)"
    and ups: "map u_size ups =
               map name (filter (\<lambda>sz. \<not> isl (sharp env (projr (s3_get env (requests w) (Key img)))
                                                  (resizeRequest sz))) sizes)" by blast
  have "filter (\<lambda>sz. \<not> isl (sharp env (projr (s3_get env (requests w) (Key img)))
                                                  (resizeRequest sz))) sizes = []"
    using bad by (simp add: filter_empty_conv)
  then have "ups = []" using ups by simp
  then show ?case using Cons.IH [of "acc @ [\<lparr>original = Key img, processed = []\<rparr>]" w'] po by simp
qed

text \<open>
  Claim C2, amended. An object whose download fails gets no outcome, and the run goes on
  with the next object from the state the failure left. An object whose download and
  uploads all succeed gets exactly one outcome, appended to the result list, with the
  variants \<open>processImage\<close> returned, however many they are. The result list holds at most
  one outcome per listed object, in listing order. When every download and every upload
  of the run succeeds, every listed object has its outcome: when no variant was
  transcoded, the outcome is there with an empty list of variants.
\<close>

theorem outcome_only_for_processed_objects:
  "(\<forall>e. s3_get env (requests w) (Key img) = Inl e \<longrightarrow>
        processLoop cfg env (img # rest) acc w =
          processLoop cfg env rest acc
            (say (ObjectFailed (Key img) (message e)) (w\<lparr>requests := Suc (requests w)\<rparr>)))
   \<and> (\<forall>w1 localPath ps w2.
        downloadImage cfg env (Key img) w = (w1, Inr localPath)
        \<and> processImage cfg env localPath (Key img) w1 = (ps, w2)
        \<and> (\<forall>j<length ps. s3_put env (requests w2 + j)
               (putParams cfg (key (ps ! j)) (buffer (ps ! j))) = None) \<longrightarrow>
        processLoop cfg env (img # rest) acc w =
          processLoop cfg env rest
            (acc @ [\<lparr>original = Key img,
                      processed = map (\<lambda>p. \<lparr>u_size = size_name p, u_key = key p,
                                              url = objectUrl cfg (key p)\<rparr>) ps\<rparr>])
            (fst (processOne cfg env img w)))
   \<and> subseq (map original (snd (processLoop cfg env imgs [] w))) (map Key imgs)
   \<and> ((\<forall>n k. \<not> isl (s3_get env n k)) \<and> (\<forall>n p. s3_put env n p = None) \<longrightarrow>
        map original (snd (processLoop cfg env imgs [] w)) = map Key imgs)
   \<and> ((\<forall>n k. \<not> isl (s3_get env n k)) \<and> (\<forall>n p. s3_put env n p = None)
        \<and> (\<forall>content. \<forall>sz \<in> set sizes. isl (sharp env content (resizeRequest sz))) \<longrightarrow>
        snd (processLoop cfg env imgs [] w) = map (\<lambda>i. \<lparr>original = Key i, processed = []\<rparr>) imgs)"
proof (intro conjI)
  show "\<forall>w1 localPath ps w2.
        downloadImage cfg env (Key img) w = (w1, Inr localPath)
        \<and> processImage cfg env localPath (Key img) w1 = (ps, w2)
        \<and> (\<forall>j<length ps. s3_put env (requests w2 + j)
               (putParams cfg (key (ps ! j)) (buffer (ps ! j))) = None) \<longrightarrow>
        processLoop cfg env (img # rest) acc w =
          processLoop cfg env rest
            (acc @ [\<lparr>original = Key img,
                      processed = map (\<lambda>p. \<lparr>u_size = size_name p, u_key = key p,
                                              url = objectUrl cfg (key p)\<rparr>) ps\<rparr>])
            (fst (processOne cfg env img w))"
  proof (intro allI impI, elim conjE)
    fix w1 localPath ps w2
    assume dl: "downloadImage cfg env (Key img) w = (w1, Inr localPath)"
      and pi: "processImage cfg env localPath (Key img) w1 = (ps, w2)"
      and ok: "\<forall>j<length ps. s3_put env (requests w2 + j)
               (putParams cfg (key (ps ! j)) (buffer (ps ! j))) = None"
    have "snd (tryImage cfg env img w) =
            Inr \<lparr>original = Key img,
                 processed = map (\<lambda>p. \<lparr>u_size = size_name p, u_key = key p,
                                          url = objectUrl cfg (key p)\<rparr>) ps\<rparr>"
      by (rule tryImage_all_published [OF dl pi ok])
    then have po: "processOne cfg env img w =
            (fst (processOne cfg env img w),
             Some \<lparr>original = Key img,
                   processed = map (\<lambda>p. \<lparr>u_size = size_name p, u_key = key p,
                                            url = objectUrl cfg (key p)\<rparr>) ps\<rparr>)"
      by (cases "tryImage cfg env img w") (simp add: processOne_def)
    show "processLoop cfg env (img # rest) acc w =
          processLoop cfg env rest
            (acc @ [\<lparr>original = Key img,
                      processed = map (\<lambda>p. \<lparr>u_size = size_name p, u_key = key p,
                                              url = objectUrl cfg (key p)\<rparr>) ps\<rparr>])
            (fst (processOne cfg env img w))"
      by (subst processLoop.simps, subst po) simp
  qed
  show "\<forall>e. s3_get env (requests w) (Key img) = Inl e \<longrightarrow>
        processLoop cfg env (img # rest) acc w =
          processLoop cfg env rest acc
            (say (ObjectFailed (Key img) (message e)) (w\<lparr>requests := Suc (requests w)\<rparr>))"
    by (simp add: processOne_download_fail)
  show "subseq (map original (snd (processLoop cfg env imgs [] w))) (map Key imgs)"
    using processLoop_subseq [of cfg env imgs "[]" w] by auto
  show "(\<forall>n k. \<not> isl (s3_get env n k)) \<and> (\<forall>n p. s3_put env n p = None) \<longrightarrow>
        map original (snd (processLoop cfg env imgs [] w)) = map Key imgs"
    using processLoop_all_ok [of env cfg imgs "[]" w] by simp
  show "(\<forall>n k. \<not> isl (s3_get env n k)) \<and> (\<forall>n p. s3_put env n p = None)
        \<and> (\<forall>content. \<forall>sz \<in> set sizes. isl (sharp env content (resizeRequest sz))) \<longrightarrow>
        snd (processLoop cfg env imgs [] w) = map (\<lambda>i. \<lparr>original = Key i, processed = []\<rparr>) imgs"
    using processLoop_none_transcoded [of env cfg imgs "[]" w] by simp
qed

text \<open>
  Claim C2, as stated, fails: when the download of \<open>pics/a.jpg\<close> fails, the result list of
  the run holds an outcome for \<open>pics/b.png\<close> and none for \<open>pics/a.jpg\<close>.
\<close>

theorem fetch_failure_leaves_no_outcome_counterexample:
  "(case snd (processAllImages cfgPics (testEnv twoImages (faultAt 1) []) world0) of
      Inr (Some rs) \<Rightarrow> map original rs | _ \<Rightarrow> [''no result list'']) = [''pics/b.png'']"
  by code_simp

text \<open>
  The theorem on a listing of two objects: with the first download failing, with no
  failure at all, and with an image library that transcodes nothing.
\<close>

theorem outcome_only_for_processed_objects_witness:
  "map original (snd (processLoop cfgPics (testEnv twoImages (faultAt 1) []) twoImages [] listed))
     = [''pics/b.png'']
   \<and> map original (snd (processLoop cfgPics (testEnv twoImages noFault []) twoImages [] listed))
     = [''pics/a.jpg'', ''pics/b.png'']
   \<and> snd (processLoop cfgPics (testEnv twoImages noFault (map resizeRequest sizes)) twoImages [] listed)
     = [\<lparr>original = ''pics/a.jpg'', processed = []\<rparr>, \<lparr>original = ''pics/b.png'', processed = []\<rparr>]
   \<and> map (\<lambda>r. (original r, map u_key (processed r)))
       (snd (processLoop cfgPics (testEnv oneImage noFault []) oneImage [] listed))
     = [(''pics/a.jpg'', [''pics/a-default.jpg'', ''pics/a-sd_320x180.jpg'',
                           ''pics/a-hd_1280x720.jpg'', ''pics/a-fhd_1920x1080.jpg''])]"
proof -
  let ?env4 = "testEnv oneImage noFault []"
  let ?one = "hd oneImage"
  let ?d4 = "downloadImage cfgPics ?env4 (Key ?one) listed"
  let ?p4 = "processImage cfgPics ?env4 ''/tmp/s3-processor-1/a.jpg'' (Key ?one) (fst ?d4)"
  have one: "oneImage = [?one]" and k1: "Key ?one = ''pics/a.jpg''" by (simp_all add: oneImage_def)
  have "snd ?d4 = Inr ''/tmp/s3-processor-1/a.jpg''" by code_simp
  then have d4: "?d4 = (fst ?d4, Inr ''/tmp/s3-processor-1/a.jpg'')" by (simp add: prod_eq_iff)
  have p4: "?p4 = (fst ?p4, snd ?p4)" by simp
  have ok4: "\<forall>j<length (fst ?p4). s3_put ?env4 (requests (snd ?p4) + j)
               (putParams cfgPics (key (fst ?p4 ! j)) (buffer (fst ?p4 ! j))) = None"
    unfolding testEnv_put noFault_def by simp
  have keys4: "map key (fst ?p4) = [''pics/a-default.jpg'', ''pics/a-sd_320x180.jpg'',
                           ''pics/a-hd_1280x720.jpg'', ''pics/a-fhd_1920x1080.jpg'']"
    by code_simp
  have "processLoop cfgPics ?env4 (?one # []) [] listed =
          processLoop cfgPics ?env4 []
            ([] @ [\<lparr>original = Key ?one,
                      processed = map (\<lambda>p. \<lparr>u_size = size_name p, u_key = key p,
                                              url = objectUrl cfgPics (key p)\<rparr>) (fst ?p4)\<rparr>])
            (fst (processOne cfgPics ?env4 ?one listed))"
    using outcome_only_for_processed_objects [of ?env4 listed ?one cfgPics "[]" "[]" oneImage]
      d4 p4 ok4 by blast
  then have "snd (processLoop cfgPics ?env4 [?one] [] listed) =
               [\<lparr>original = Key ?one,
                      processed = map (\<lambda>p. \<lparr>u_size = size_name p, u_key = key p,
                                              url = objectUrl cfgPics (key p)\<rparr>) (fst ?p4)\<rparr>]"
    by simp
  then have d: "map (\<lambda>r. (original r, map u_key (processed r)))
       (snd (processLoop cfgPics ?env4 oneImage [] listed))
     = [(''pics/a.jpg'', map key (fst ?p4))]"
    using one k1 by (simp add: comp_def)
  let ?env1 = "testEnv twoImages (faultAt 1) []"
  let ?envOK = "testEnv twoImages noFault []"
  let ?envNoT = "testEnv twoImages noFault (map resizeRequest sizes)"
  let ?img = "hd twoImages"
  let ?e = "Error ''NetworkingError''"
  let ?w' = "say (ObjectFailed (Key ?img) (message ?e)) (listed\<lparr>requests := Suc (requests listed)\<rparr>)"
  have tw: "twoImages = ?img # tl twoImages" by (simp add: twoImages_def)
  have keys: "map Key twoImages = [''pics/a.jpg'', ''pics/b.png'']" by (simp add: twoImages_def)
  have g1: "s3_get ?env1 (requests listed) (Key ?img) = Inl ?e"
    by (simp add: testEnv_get faultAt_def listed_def world0_def)
  have getOK: "\<forall>n k. \<not> isl (s3_get ?envOK n k)" by (simp add: testEnv_get noFault_def)
  have putOK: "\<forall>n p. s3_put ?envOK n p = None" by (simp add: testEnv_put noFault_def)
  have getNoT: "\<forall>n k. \<not> isl (s3_get ?envNoT n k)" by (simp add: testEnv_get noFault_def)
  have putNoT: "\<forall>n p. s3_put ?envNoT n p = None" by (simp add: testEnv_put noFault_def)
  have badNoT: "\<forall>content. \<forall>sz \<in> set sizes. isl (sharp ?envNoT content (resizeRequest sz))"
    by (simp add: testEnv_sharp)
  have "processLoop cfgPics ?env1 (?img # tl twoImages) [] listed
          = processLoop cfgPics ?env1 (tl twoImages) [] ?w'"
    using outcome_only_for_processed_objects [of ?env1 listed ?img cfgPics "tl twoImages" "[]" twoImages] g1
    by blast
  moreover have "map original (snd (processLoop cfgPics ?env1 (tl twoImages) [] ?w')) = [''pics/b.png'']"
    by code_simp
  ultimately have a: "map original (snd (processLoop cfgPics ?env1 twoImages [] listed)) = [''pics/b.png'']"
    using tw by simp
  have b: "map original (snd (processLoop cfgPics ?envOK twoImages [] listed)) = map Key twoImages"
    using outcome_only_for_processed_objects [of ?envOK listed ?img cfgPics "tl twoImages" "[]" twoImages]
      getOK putOK by blast
  have c: "snd (processLoop cfgPics ?envNoT twoImages [] listed)
             = map (\<lambda>i. \<lparr>original = Key i, processed = []\<rparr>) twoImages"
    using outcome_only_for_processed_objects [of ?envNoT listed ?img cfgPics "tl twoImages" "[]" twoImages]
      getNoT putNoT badNoT by blast
  show ?thesis using a b c keys by (simp add: twoImages_def d keys4)
qed

section \<open>The final summary\<close>

lemma uploadImage_console: "console (fst (uploadImage cfg env k buf w)) = console w"
  by (simp add: uploadImage_def Let_def split: option.splits)

lemma uploadLoop_console: "console (fst (uploadLoop cfg env ps acc w)) = console w"
proof (induction ps arbitrary: acc w)
  case Nil
  then show ?case by simp
next
  case (Cons p ps)
  obtain w1 r where u: "uploadImage cfg env (key p) (buffer p) w = (w1, r)"
    by (cases "uploadImage cfg env (key p) (buffer p) w")
  have "console w1 = console w" using uploadImage_console [of cfg env "key p" "buffer p" w] u by simp
  then show ?case using u Cons.IH [of _ w1] by (cases r) simp_all
qed

lemma processImage_no_summary:
  "filter isSummary (console (snd (processImage cfg env p k w))) = filter isSummary (console w)"
  by (simp add: processImage_console filter_map comp_def)

lemma tryImage_no_summary:
  "filter isSummary (console (fst (tryImage cfg env img w))) = filter isSummary (console w)"
proof (cases "s3_get env (requests w) (Key img)")
  case (Inl e)
  then show ?thesis by (simp add: tryImage_def downloadImage_fail)
next
  case (Inr buf)
  let ?p = "tempDir cfg @ ''/'' @ basename (Key img) []"
  let ?w1 = "w\<lparr>requests := Suc (requests w), tmpfiles := (tmpfiles w)(?p \<mapsto> buf)\<rparr>"
  obtain ps w2 where pi: "processImage cfg env ?p (Key img) ?w1 = (ps, w2)"
    by (cases "processImage cfg env ?p (Key img) ?w1")
  have c2: "filter isSummary (console w2) = filter isSummary (console w)"
    using processImage_no_summary [of cfg env ?p "Key img" ?w1] pi by simp
  obtain w3 r where ul: "uploadLoop cfg env ps [] w2 = (w3, r)" by (cases "uploadLoop cfg env ps [] w2")
  have "console w3 = console w2" using uploadLoop_console [of cfg env ps "[]" w2] ul by simp
  then show ?thesis
    using Inr pi ul c2 by (cases r) (simp_all add: tryImage_def downloadImage_ok Let_def)
qed

lemma processOne_no_summary:
  "filter isSummary (console (fst (processOne cfg env img w))) = filter isSummary (console w)"
  using tryImage_no_summary [of cfg env img w]
  by (cases "tryImage cfg env img w") (auto simp: processOne_def split: sum.splits)

lemma processLoop_no_summary:
  "filter isSummary (console (fst (processLoop cfg env imgs acc w))) = filter isSummary (console w)"
proof (induction imgs arbitrary: acc w)
  case Nil
  then show ?case by simp
next
  case (Cons img imgs)
  obtain w1 r where po: "processOne cfg env img w = (w1, r)" by (cases "processOne cfg env img w")
  have "filter isSummary (console w1) = filter isSummary (console w)"
    using processOne_no_summary [of cfg env img w] po by simp
  then show ?case using po Cons.IH [of _ w1] by (cases r) simp_all
qed

lemma listImages_no_summary:
  "filter isSummary (console (fst (listImages cfg env w))) = filter isSummary (console w)"
  by (simp add: listImages_def Let_def split: sum.splits option.splits)

lemma processAllImages_no_summary:
  "filter isSummary (console (fst (processAllImages cfg env w))) = filter isSummary (console w)"
proof -
  obtain w1 r where li: "listImages cfg env w = (w1, r)" by (cases "listImages cfg env w")
  have c1: "filter isSummary (console w1) = filter isSummary (console w)"
    using listImages_no_summary [of cfg env w] li by simp
  show ?thesis
  proof (cases r)
    case (Inl e)
    then show ?thesis using li c1 by (simp add: processAllImages_def)
  next
    case (Inr images)
    obtain w2 rs where pl: "processLoop cfg env images [] w1 = (w2, rs)"
      by (cases "processLoop cfg env images [] w1")
    have "filter isSummary (console w2) = filter isSummary (console w1)"
      using processLoop_no_summary [of cfg env images "[]" w1] pl by simp
    then show ?thesis using li c1 Inr pl by (simp add: processAllImages_def)
  qed
qed

lemma processLoop_all_downloads_fail:
  assumes "\<forall>n k. isl (s3_get env n k)"
  shows "snd (processLoop cfg env imgs acc w) = acc"
proof (induction imgs arbitrary: w)
  case Nil
  then show ?case by simp
next
  case (Cons img imgs)
  have "isl (s3_get env (requests w) (Key img))" using assms by blast
  then obtain e where "s3_get env (requests w) (Key img) = Inl e"
    by (cases "s3_get env (requests w) (Key img)") simp_all
  then show ?case using Cons.IH by (simp add: processOne_download_fail)
qed

lemma processAllImages_all_downloads_fail:
  assumes "\<forall>n k. isl (s3_get env n k)"
  shows "snd (processAllImages cfg env w) \<noteq> Inr (Some (r # rs))"
proof -
  obtain w1 r' where li: "listImages cfg env w = (w1, r')" by (cases "listImages cfg env w")
  show ?thesis
  proof (cases r')
    case (Inl e)
    then show ?thesis using li by (simp add: processAllImages_def)
  next
    case (Inr images)
    obtain w2 out where pl: "processLoop cfg env images [] w1 = (w2, out)"
      by (cases "processLoop cfg env images [] w1")
    have "out = []" using processLoop_all_downloads_fail [OF assms, of cfg images "[]" w1] pl by simp
    then show ?thesis using li Inr pl by (simp add: processAllImages_def)
  qed
qed

lemma cleanup_console [simp]: "console (cleanup cfg w) = console w"
  by (simp add: cleanup_def)

text \<open>
  Claim C4, amended. In a run without a fatal error the program exits normally, and the
  summary is printed exactly when the result list is not empty, that is when at least one
  listed object was downloaded and all its variants uploaded; it is printed once, with the
  number of outcomes and of published variants. When every download fails nothing is
  printed as a summary, and neither is it when no image was listed.
\<close>

theorem summary_only_for_nonempty_results:
  "(\<forall>w1 results. processAllImages cfg env w = (w1, Inr results) \<longrightarrow>
        snd (run cfg env w) = None
        \<and> filter isSummary (console (fst (run cfg env w))) =
            filter isSummary (console w) @
              (case results of
                 None \<Rightarrow> []
               | Some rs \<Rightarrow>
                   if rs = [] then []
                   else [Summary rs (length rs)
                           (foldl (\<lambda>total r. total + length (processed r)) 0 rs)]))
   \<and> ((\<forall>n k. isl (s3_get env n k)) \<longrightarrow>
        filter isSummary (console (fst (run cfg env w))) = filter isSummary (console w))"
proof (intro conjI allI impI)
  fix w1 results
  assume pa: "processAllImages cfg env w = (w1, Inr results)"
  have c1: "filter isSummary (console w1) = filter isSummary (console w)"
    using processAllImages_no_summary [of cfg env w] pa by simp
  show "snd (run cfg env w) = None" using pa by (simp add: run_def Let_def)
  show "filter isSummary (console (fst (run cfg env w))) =
            filter isSummary (console w) @
              (case results of
                 None \<Rightarrow> []
               | Some rs \<Rightarrow>
                   if rs = [] then []
                   else [Summary rs (length rs)
                           (foldl (\<lambda>total r. total + length (processed r)) 0 rs)])"
    using pa c1 by (simp add: run_def Let_def displayResults_def split: option.splits)
next
  assume fail: "\<forall>n k. isl (s3_get env n k)"
  obtain w1 r where pa: "processAllImages cfg env w = (w1, r)" by (cases "processAllImages cfg env w")
  have c1: "filter isSummary (console w1) = filter isSummary (console w)"
    using processAllImages_no_summary [of cfg env w] pa by simp
  have ne: "r \<noteq> Inr (Some (x # xs))" for x xs
    using processAllImages_all_downloads_fail [OF fail, of cfg w x xs] pa by simp
  show "filter isSummary (console (fst (run cfg env w))) = filter isSummary (console w)"
  proof (cases r)
    case (Inl e)
    then show ?thesis using pa c1 by (simp add: run_def)
  next
    case (Inr results)
    show ?thesis
    proof (cases results)
      case None
      then show ?thesis using pa c1 Inr by (simp add: run_def)
    next
      case (Some rs)
      then have "rs = []" using ne Inr by (cases rs) auto
      then show ?thesis using pa c1 Inr Some by (simp add: run_def)
    qed
  qed
qed

text \<open>
  Claim C4, as stated, fails: in a run where the listing succeeds and both downloads
  fail, the program exits normally and the console holds the two failures and no summary.
\<close>

theorem no_summary_when_all_objects_fail_counterexample:
  "snd (run cfgPics (testEnv twoImages allFault []) world0) = None
   \<and> console (fst (run cfgPics (testEnv twoImages allFault []) world0)) =
       [ListSucceeded 2, ObjectFailed ''pics/a.jpg'' ''NetworkingError'',
        ObjectFailed ''pics/b.png'' ''NetworkingError'']"
  by code_simp

text \<open>
  The theorem on a run that processes its one object, and on a run whose downloads all
  fail.
\<close>

theorem summary_only_for_nonempty_results_witness:
  "map (\<lambda>e. case e of Summary rs n m \<Rightarrow> (map original rs, n, m) | _ \<Rightarrow> ([], 0, 0))
     (filter isSummary (console (fst (run cfgPics (testEnv oneImage noFault []) world0))))
     = [([''pics/a.jpg''], 1, 4)]
   \<and> snd (run cfgPics (testEnv oneImage noFault []) world0) = None
   \<and> filter isSummary (console (fst (run cfgPics (testEnv twoImages allFault []) world0))) = []"
proof -
  let ?envOK = "testEnv oneImage noFault []"
  let ?envAll = "testEnv twoImages allFault []"
  let ?pa = "processAllImages cfgPics ?envOK world0"
  define results where "results = projr (snd ?pa)"
  have "isl (snd ?pa) = False" by code_simp
  then have pa: "?pa = (fst ?pa, Inr results)" by (simp add: prod_eq_iff results_def)
  have c0: "console world0 = []" by (simp add: world0_def)
  have shape: "map (\<lambda>e. case e of Summary rs n m \<Rightarrow> (map original rs, n, m) | _ \<Rightarrow> ([], 0, 0))
     (case results of
                 None \<Rightarrow> []
               | Some rs \<Rightarrow>
                   if rs = [] then []
                   else [Summary rs (length rs)
                           (foldl (\<lambda>total r. total + length (processed r)) 0 rs)])
     = [([''pics/a.jpg''], 1, 4)]"
    unfolding results_def by code_simp
  have fail: "\<forall>n k. isl (s3_get ?envAll n k)" by (simp add: testEnv_get allFault_def)
  note T1 = summary_only_for_nonempty_results [of cfgPics ?envOK world0, THEN conjunct1, rule_format, OF pa]
  note T2 = summary_only_for_nonempty_results [of cfgPics ?envAll world0, THEN conjunct2, THEN mp, OF fail]
  from T1 have a: "snd (run cfgPics ?envOK world0) = None" by (rule conjunct1)
  from T1 have b: "filter isSummary (console (fst (run cfgPics ?envOK world0))) =
              (case results of
                 None \<Rightarrow> []
               | Some rs \<Rightarrow>
                   if rs = [] then []
                   else [Summary rs (length rs)
                           (foldl (\<lambda>total r. total + length (processed r)) 0 rs)])"
    unfolding c0 by simp
  from T2 have c: "filter isSummary (console (fst (run cfgPics ?envAll world0))) = []"
    unfolding c0 by simp
  show ?thesis
    unfolding b shape using a c by simp
qed

section \<open>The staged file of an object\<close>

text \<open>
  Claim C9. The staged file is deleted on the path where every upload succeeded only: with
  the first upload of \<open>pics/a.jpg\<close> refused, its staged file is still there after the
  object's processing, and still there when \<open>pics/b.png\<close> has been processed, whose own
  staged file is gone.
\<close>

theorem staged_file_kept_after_failed_upload:
  "tmpfiles (fst (processOne cfgPics (testEnv twoImages (faultAt 2) []) (hd twoImages) listed))
     ''/tmp/s3-processor-1/a.jpg'' = Some [255, 216, 255]
   \<and> tmpfiles (fst (processAllImages cfgPics (testEnv twoImages (faultAt 2) []) world0))
     ''/tmp/s3-processor-1/a.jpg'' = Some [255, 216, 255]
   \<and> tmpfiles (fst (processAllImages cfgPics (testEnv twoImages (faultAt 2) []) world0))
     ''/tmp/s3-processor-1/b.png'' = None"
  by code_simp

section \<open>Resizing inside the bounding box\<close>

lemma roundDiv_le:
  assumes "0 < b" and "a \<le> c * b"
  shows "roundDiv a b \<le> c"
proof -
  have "2 * a + b < (c + 1) * (2 * b)" using assms by (simp add: algebra_simps)
  then have "(2 * a + b) div (2 * b) < c + 1" using assms(1) by (simp add: div_less_iff_less_mult)
  then show ?thesis by (simp add: roundDiv_def)
qed

lemma roundDiv_near:
  assumes "0 < b"
  shows "2 * (roundDiv a b * b) \<le> 2 * a + b \<and> 2 * a < 2 * (roundDiv a b * b) + b"
proof -
  let ?q = "(2 * a + b) div (2 * b)"
  have "?q * (2 * b) \<le> 2 * a + b" by simp
  moreover have "2 * a + b < 2 * b + ?q * (2 * b)"
    using dividend_less_div_times [of "2 * b" "2 * a + b"] assms by simp
  ultimately show ?thesis by (simp add: roundDiv_def algebra_simps)
qed

text \<open>Rounding to the nearest pixel and never below one misses the exact side by less than one.\<close>

lemma clamped_near:
  assumes "0 < b" and "0 < a"
  shows "max 1 (roundDiv a b) * b < a + b \<and> a < max 1 (roundDiv a b) * b + b"
proof (cases "roundDiv a b = 0")
  case True
  with roundDiv_near [OF assms(1), of a] have "2 * a < b" by simp
  then show ?thesis using True assms by simp
next
  case False
  then have m: "max 1 (roundDiv a b) = roundDiv a b" by simp
  from roundDiv_near [OF assms(1), of a] show ?thesis using assms unfolding m by linarith
qed


lemma fitInside_bounds:
  assumes pos: "0 < w" "0 < h" "0 < W" "0 < H"
    and big: "\<not> (w \<le> W \<and> h \<le> H)"
    and fit: "fitInside W H (w, h) = (ow, oh)"
  shows "0 < ow \<and> 0 < oh \<and> ow \<le> W \<and> oh \<le> H \<and> ow \<le> w \<and> oh \<le> h
         \<and> ow * h < oh * w + max w h \<and> oh * w < ow * h + max w h"
proof (cases "w * H \<le> h * W")
  case True
  with fit have ow: "ow = max 1 (roundDiv (w * H) h)" and oh: "oh = H"
    by (auto simp: fitInside_def)
  have hH: "H < h"
  proof (rule ccontr)
    assume "\<not> H < h"
    then have "h \<le> H" by simp
    with big have "W < w" by simp
    then have lt: "W * H < w * H" using pos by simp
    have "h * W \<le> H * W" using \<open>h \<le> H\<close> by (rule mult_le_mono1)
    then have "h * W \<le> W * H" by (simp only: mult.commute [of H W])
    then have "h * W < w * H" using lt by (rule le_less_trans)
    with True show False by linarith
  qed
  have "w * H \<le> W * h" using True by (simp add: mult.commute)
  then have "roundDiv (w * H) h \<le> W" using pos by (intro roundDiv_le) simp_all
  then have b1: "ow \<le> W" unfolding ow using pos by simp
  have "w * H \<le> w * h" using hH by simp
  then have "roundDiv (w * H) h \<le> w" using pos by (intro roundDiv_le) simp_all
  then have b2: "ow \<le> w" unfolding ow using pos by simp
  have b0: "0 < ow" unfolding ow by simp
  have "0 < w * H" using pos by simp
  from clamped_near [OF pos(2) this]
  have "ow * h < w * H + h" and "w * H < ow * h + h" unfolding ow by simp_all
  then have "ow * h < oh * w + max w h" and "oh * w < ow * h + max w h"
    unfolding oh by (simp_all add: mult.commute)
  then show ?thesis using b0 b1 b2 hH oh pos by simp
next
  case False
  with fit have ow: "ow = W" and oh: "oh = max 1 (roundDiv (h * W) w)"
    by (auto simp: fitInside_def)
  have lt: "h * W < w * H" using False by simp
  have wW: "W < w"
  proof (rule ccontr)
    assume "\<not> W < w"
    then have "w \<le> W" by simp
    with big have "H < h" by simp
    then have lt': "H * W < h * W" using pos by simp
    have "w * H \<le> W * H" using \<open>w \<le> W\<close> by (rule mult_le_mono1)
    then have "w * H \<le> H * W" by (simp only: mult.commute [of W H])
    then have "w * H < h * W" using lt' by (rule le_less_trans)
    with lt show False by (rule less_asym')
  qed
  have "h * W \<le> H * w" using lt by (simp add: mult.commute)
  then have "roundDiv (h * W) w \<le> H" using pos by (intro roundDiv_le) simp_all
  then have b1: "oh \<le> H" unfolding oh using pos by simp
  have "h * W \<le> h * w" using wW by simp
  then have "roundDiv (h * W) w \<le> h" using pos by (intro roundDiv_le) simp_all
  then have b2: "oh \<le> h" unfolding oh using pos by simp
  have b0: "0 < oh" unfolding oh by simp
  have "0 < h * W" using pos by simp
  from clamped_near [OF pos(1) this]
  have "oh * w < h * W + w" and "h * W < oh * w + w" unfolding oh by simp_all
  then have "ow * h < oh * w + max w h" and "oh * w < ow * h + max w h"
    unfolding ow by (simp_all add: mult.commute)
  then show ?thesis using b0 b1 b2 wW ow pos by simp
qed

lemma toyDims_pair [simp]: "toyDims [w, h] = Some (w, h)"
  by (simp add: toyDims_def)

lemma toyDims_Some: "toyDims content = Some (w, h) \<Longrightarrow> content = [w, h]"
  by (auto simp: toyDims_def split: list.splits)

text \<open>
  The stand-in library obeys the contract.
\<close>

lemma toySharp_obeys_contract:
  assumes out: "toySharp content opts = Inr out"
    and dims: "toyDims content = Some (iw, ih)" and pos: "0 < iw" "0 < ih"
  shows "\<exists>d. toyDims out = Some d \<and> resizeContract opts (iw, ih) d"
proof (cases opts)
  case None
  then show ?thesis using out dims by (simp add: toySharp_def resizeContract_def)
next
  case (Some r)
  show ?thesis
  proof (cases "fit r = Inside")
    case False
    then show ?thesis using out dims Some by (simp add: toySharp_def)
  next
    case True
    show ?thesis
    proof (cases "withoutEnlargement r \<and> iw \<le> r_width r \<and> ih \<le> r_height r")
      case fits: True
      then have "out = content" using out dims Some True by (simp add: toySharp_def)
      then show ?thesis using dims Some True fits by (simp add: resizeContract_def)
    next
      case nofit: False
      obtain ow oh where f: "fitInside (r_width r) (r_height r) (iw, ih) = (ow, oh)"
        by (cases "fitInside (r_width r) (r_height r) (iw, ih)")
      have o: "out = [ow, oh]" using out dims Some True nofit f by (simp add: toySharp_def)
      show ?thesis
      proof (cases "withoutEnlargement r \<and> 0 < r_width r \<and> 0 < r_height r")
        case False
        then show ?thesis using o Some True by (auto simp: resizeContract_def)
      next
        case c: True
        then have big: "\<not> (iw \<le> r_width r \<and> ih \<le> r_height r)" using nofit by simp
        from c have bp: "0 < r_width r" "0 < r_height r" by simp_all
        from fitInside_bounds [OF pos bp big f] show ?thesis
          using o Some True c big by (auto simp: resizeContract_def)
      qed
    qed
  qed
qed

text \<open>
  Claim C5. Let the image library obey its contract, whatever \<open>dimsOf\<close> reads as the
  dimensions of encoded bytes, and let the staged file hold an image of positive
  dimensions. Then every variant that \<open>processImage\<close> returns holds the bytes the
  transcoder gave for a size of the catalog, and these bytes are an image that, for a size
  with a bounding box, has positive dimensions inside the box, is in no dimension larger
  than the input, keeps the aspect ratio within rounding, and has the input's dimensions
  when the input already fits the box; for the size without a box it has the input's
  dimensions.
\<close>

theorem transcoder_fits_inside_without_enlargement:
  assumes lib: "\<forall>content opts out iw ih.
                  sharp env content opts = Inr out \<and> dimsOf content = Some (iw, ih)
                  \<and> 0 < iw \<and> 0 < ih
                  \<longrightarrow> (\<exists>d. dimsOf out = Some d \<and> resizeContract opts (iw, ih) d)"
    and staged: "tmpfiles w imagePath = Some content"
    and dims: "dimsOf content = Some (iw, ih)" and pos: "0 < iw" "0 < ih"
    and p: "p \<in> set (fst (processImage cfg env imagePath originalKey w))"
  shows "\<exists>sz ow oh. sz \<in> set sizes \<and> size_name p = name sz
           \<and> transcode env w imagePath sz = Inr (buffer p)
           \<and> dimsOf (buffer p) = Some (ow, oh)
           \<and> (case (width sz, height sz) of
                 (Some maxWidth, Some maxHeight) \<Rightarrow>
                    0 < ow \<and> 0 < oh \<and> ow \<le> maxWidth \<and> oh \<le> maxHeight
                    \<and> ow \<le> iw \<and> oh \<le> ih
                    \<and> ow * ih < oh * iw + max iw ih \<and> oh * iw < ow * ih + max iw ih
                    \<and> (iw \<le> maxWidth \<and> ih \<le> maxHeight \<longrightarrow> ow = iw \<and> oh = ih)
               | _ \<Rightarrow> ow = iw \<and> oh = ih)"
proof -
  from p obtain sz where sz: "sz \<in> set sizes"
    and ok: "\<not> isl (transcode env w imagePath sz)"
    and pe: "p = \<lparr>key = newKey cfg originalKey sz,
                   buffer = projr (transcode env w imagePath sz), size_name = name sz\<rparr>"
    by (auto simp: processImage_results)
  from ok have tr: "transcode env w imagePath sz = Inr (buffer p)"
    by (cases "transcode env w imagePath sz") (simp_all add: pe)
  then have sh: "sharp env content (resizeRequest sz) = Inr (buffer p)"
    using staged by (simp add: transcode_def)
  from lib sh dims pos obtain d where d: "dimsOf (buffer p) = Some d"
    and c: "resizeContract (resizeRequest sz) (iw, ih) d" by blast
  obtain ow oh where dd: "d = (ow, oh)" by (cases d)
  have m: "0 < max iw ih" using pos by simp
  have boxed: "0 < ow \<and> 0 < oh \<and> ow \<le> W \<and> oh \<le> H \<and> ow \<le> iw \<and> oh \<le> ih
                 \<and> ow * ih < oh * iw + max iw ih \<and> oh * iw < ow * ih + max iw ih
                 \<and> (iw \<le> W \<and> ih \<le> H \<longrightarrow> ow = iw \<and> oh = ih)"
    if "resizeContract (Some \<lparr>r_width = W, r_height = H, fit = Inside, withoutEnlargement = True\<rparr>)
          (iw, ih) (ow, oh)" and "0 < W" and "0 < H" for W H
  proof (cases "iw \<le> W \<and> ih \<le> H")
    case True
    with that have "ow = iw \<and> oh = ih" by (simp add: resizeContract_def)
    then show ?thesis using True pos m by (simp add: mult.commute)
  next
    case False
    with that show ?thesis by (auto simp: resizeContract_def)
  qed
  consider "sz = sizes ! 0" | "sz = sizes ! 1" | "sz = sizes ! 2" | "sz = sizes ! 3"
    using sz by (auto simp: sizes_def)
  then have "case (width sz, height sz) of
                 (Some maxWidth, Some maxHeight) \<Rightarrow>
                    0 < ow \<and> 0 < oh \<and> ow \<le> maxWidth \<and> oh \<le> maxHeight
                    \<and> ow \<le> iw \<and> oh \<le> ih
                    \<and> ow * ih < oh * iw + max iw ih \<and> oh * iw < ow * ih + max iw ih
                    \<and> (iw \<le> maxWidth \<and> ih \<le> maxHeight \<longrightarrow> ow = iw \<and> oh = ih)
               | _ \<Rightarrow> ow = iw \<and> oh = ih"
  proof cases
    case 1
    then show ?thesis using c dd by (simp add: sizes_def resizeRequest_def resizeContract_def)
  next
    case 2
    then have "resizeContract (Some \<lparr>r_width = 320, r_height = 180, fit = Inside,
                 withoutEnlargement = True\<rparr>) (iw, ih) (ow, oh)"
      using c dd by (simp add: sizes_def resizeRequest_def)
    from boxed [OF this] show ?thesis using 2 by (simp add: sizes_def)
  next
    case 3
    then have "resizeContract (Some \<lparr>r_width = 1280, r_height = 720, fit = Inside,
                 withoutEnlargement = True\<rparr>) (iw, ih) (ow, oh)"
      using c dd by (simp add: sizes_def resizeRequest_def)
    from boxed [OF this] show ?thesis using 3 by (simp add: sizes_def)
  next
    case 4
    then have "resizeContract (Some \<lparr>r_width = 1920, r_height = 1080, fit = Inside,
                 withoutEnlargement = True\<rparr>) (iw, ih) (ow, oh)"
      using c dd by (simp add: sizes_def resizeRequest_def)
    from boxed [OF this] show ?thesis using 4 by (simp add: sizes_def)
  qed
  moreover have "size_name p = name sz" by (subst pe) simp
  moreover have "dimsOf (buffer p) = Some (ow, oh)" using d dd by simp
  ultimately show ?thesis using sz tr by blast
qed


lemma toyEnv_sharp [simp]: "sharp toyEnv = toySharp"
  by (simp add: toyEnv_def)

lemma staged_file [simp]: "tmpfiles (staged content) ''/tmp/s3-processor-1/a.jpg'' = Some content"
  by (simp add: staged_def)

text \<open>
  The theorem on the stand-in library: an image of 4000 by 2000 comes out as 320 by 160,
  1280 by 640 and 1920 by 960; an image of 100 by 100 keeps its size in the largest box, and
  an image of 100 by 50 keeps it for the size without a box.
\<close>

theorem transcoder_fits_inside_without_enlargement_witness:
  "map (\<lambda>p. (size_name p, buffer p))
     (fst (processImage cfgPics toyEnv ''/tmp/s3-processor-1/a.jpg'' ''pics/a.jpg''
             (staged [4000, 2000])))
     = [(''default'', [4000, 2000]), (''sd_320x180'', [320, 160]),
        (''hd_1280x720'', [1280, 640]), (''fhd_1920x1080'', [1920, 960])]
   \<and> (\<exists>ow oh. toyDims (buffer (fst (processImage cfgPics toyEnv ''/tmp/s3-processor-1/a.jpg''
                                      ''pics/a.jpg'' (staged [4000, 2000])) ! 2)) = Some (ow, oh)
          \<and> 0 < ow \<and> 0 < oh \<and> ow \<le> 1280 \<and> oh \<le> 720 \<and> ow \<le> 4000 \<and> oh \<le> 2000)
   \<and> toyDims (buffer (fst (processImage cfgPics toyEnv ''/tmp/s3-processor-1/a.jpg''
                             ''pics/a.jpg'' (staged [100, 100])) ! 3)) = Some (100, 100)
   \<and> toyDims (buffer (fst (processImage cfgPics toyEnv ''/tmp/s3-processor-1/a.jpg''
                             ''pics/a.jpg'' (staged [100, 50])) ! 0)) = Some (100, 50)"
proof -
  let ?path = "''/tmp/s3-processor-1/a.jpg''"
  let ?big = "fst (processImage cfgPics toyEnv ?path ''pics/a.jpg'' (staged [4000, 2000]))"
  let ?small = "fst (processImage cfgPics toyEnv ?path ''pics/a.jpg'' (staged [100, 100]))"
  let ?flat = "fst (processImage cfgPics toyEnv ?path ''pics/a.jpg'' (staged [100, 50]))"
  have lib: "\<forall>content opts out iw ih.
                  sharp toyEnv content opts = Inr out \<and> toyDims content = Some (iw, ih)
                  \<and> 0 < iw \<and> 0 < ih
                  \<longrightarrow> (\<exists>d. toyDims out = Some d \<and> resizeContract opts (iw, ih) d)"
  proof (intro allI impI, elim conjE)
    fix content opts out iw ih
    assume "sharp toyEnv content opts = Inr out" and d: "toyDims content = Some (iw, ih)"
      and pos: "0 < iw" "0 < ih"
    then have "toySharp content opts = Inr out" by simp
    then show "\<exists>d. toyDims out = Some d \<and> resizeContract opts (iw, ih) d"
      using d pos by (rule toySharp_obeys_contract)
  qed
  have big: "map (\<lambda>p. (size_name p, buffer p)) ?big
     = [(''default'', [4000, 2000]), (''sd_320x180'', [320, 160]),
        (''hd_1280x720'', [1280, 640]), (''fhd_1920x1080'', [1920, 960])]"
    by (simp add: processImage_results transcode_def toySharp_def fitInside_def roundDiv_def
          sizes_def resizeRequest_def comp_def)
  have small: "map size_name ?small = [''default'', ''sd_320x180'', ''hd_1280x720'', ''fhd_1920x1080'']"
    by (simp add: processImage_results transcode_def toySharp_def fitInside_def roundDiv_def
          sizes_def resizeRequest_def comp_def)
  have flat: "map size_name ?flat = [''default'', ''sd_320x180'', ''hd_1280x720'', ''fhd_1920x1080'']"
    by (simp add: processImage_results transcode_def toySharp_def fitInside_def roundDiv_def
          sizes_def resizeRequest_def comp_def)
  have names: "map size_name ?big = [''default'', ''sd_320x180'', ''hd_1280x720'', ''fhd_1920x1080'']"
    using arg_cong [OF big, of "map fst"] by (simp add: comp_def)
  have lb: "length ?big = 4" using arg_cong [OF names, of length] by simp
  have ls: "length ?small = 4" using arg_cong [OF small, of length] by simp
  have lf: "length ?flat = 4" using arg_cong [OF flat, of length] by simp
  have nb: "size_name (?big ! 2) = ''hd_1280x720''"
    using arg_cong [OF names, of "\<lambda>l. l ! 2"] lb by simp
  have ns: "size_name (?small ! 3) = ''fhd_1920x1080''"
    using arg_cong [OF small, of "\<lambda>l. l ! 3"] ls by simp
  have nf: "size_name (?flat ! 0) = ''default''"
    using arg_cong [OF flat, of "\<lambda>l. l ! 0"] lf by simp
  have mb: "?big ! 2 \<in> set ?big" using lb by (intro nth_mem) simp
  have ms: "?small ! 3 \<in> set ?small" using ls by (intro nth_mem) simp
  have mf: "?flat ! 0 \<in> set ?flat" using lf by (intro nth_mem) simp
  have a: "\<exists>ow oh. toyDims (buffer (?big ! 2)) = Some (ow, oh)
          \<and> 0 < ow \<and> 0 < oh \<and> ow \<le> 1280 \<and> oh \<le> 720 \<and> ow \<le> 4000 \<and> oh \<le> 2000"
    using transcoder_fits_inside_without_enlargement
            [OF lib staged_file toyDims_pair _ _ mb] nb
    by (auto simp: sizes_def)
  have b: "toyDims (buffer (?small ! 3)) = Some (100, 100)"
    using transcoder_fits_inside_without_enlargement
            [OF lib staged_file toyDims_pair _ _ ms] ns
    by (auto simp: sizes_def)
  have c: "toyDims (buffer (?flat ! 0)) = Some (100, 50)"
    using transcoder_fits_inside_without_enlargement
            [OF lib staged_file toyDims_pair _ _ mf] nf
    by (auto simp: sizes_def)
  show ?thesis using big a b c by blast
qed

end
